theory Spec2Isabelle
  imports Main "HOL-Library.Log_Nat"
begin

section \<open>Strings\<close>

text \<open>
  A Go string is a sequence of bytes holding UTF-8 text; it is modelled as a
  \<^typ>\<open>string\<close> (a list of 8-bit characters). The functions of package
  \<^verbatim>\<open>strings\<close> that the program calls are written out on bytes.
\<close>

definition isUpper :: "char \<Rightarrow> bool" where
  "isUpper c = (let n = (of_char c :: nat) in 65 \<le> n \<and> n \<le> 90)"

definition isLower :: "char \<Rightarrow> bool" where
  "isLower c = (let n = (of_char c :: nat) in 97 \<le> n \<and> n \<le> 122)"

definition isDigit :: "char \<Rightarrow> bool" where
  "isDigit c = (let n = (of_char c :: nat) in 48 \<le> n \<and> n \<le> 57)"

definition lowerByte :: "char \<Rightarrow> char" where
  "lowerByte c = (if isUpper c then char_of ((of_char c :: nat) + 32) else c)"

fun HasPrefix :: "string \<Rightarrow> string \<Rightarrow> bool" where
  "HasPrefix s [] = True"
| "HasPrefix [] (p # ps) = False"
| "HasPrefix (c # cs) (p # ps) = (c = p \<and> HasPrefix cs ps)"

text \<open>\<^verbatim>\<open>strings.Contains(s, substr)\<close>: the empty string is contained in every string.\<close>

fun Contains :: "string \<Rightarrow> string \<Rightarrow> bool" where
  "Contains [] sub = (sub = [])"
| "Contains (c # cs) sub = (HasPrefix (c # cs) sub \<or> Contains cs sub)"

text \<open>
  \<^verbatim>\<open>strings.ToLower\<close>, as far as the later removal of every character outside
  \<^verbatim>\<open>[a-z0-9]\<close> can see it: an ASCII capital becomes its small letter, the two
  letters of Unicode whose lower case is an ASCII letter (U+0130, bytes C4 B0, becomes
  \<^verbatim>\<open>i\<close>; U+212A, bytes E2 84 AA, becomes \<^verbatim>\<open>k\<close>) become that letter, and every other
  byte stays a byte outside ASCII (Go maps it to another character outside ASCII).
\<close>

fun ToLower :: "string \<Rightarrow> string" where
  "ToLower (a # b # c # rest) =
     (if a = CHR 0xE2 \<and> b = CHR 0x84 \<and> c = CHR 0xAA then CHR ''k'' # ToLower rest
      else if a = CHR 0xC4 \<and> b = CHR 0xB0 then CHR ''i'' # ToLower (c # rest)
      else lowerByte a # ToLower (b # c # rest))"
| "ToLower [a, b] =
     (if a = CHR 0xC4 \<and> b = CHR 0xB0 then [CHR ''i''] else lowerByte a # ToLower [b])"
| "ToLower [a] = [lowerByte a]"
| "ToLower [] = []"

text \<open>The closure \<^verbatim>\<open>normalize\<close> of \<^verbatim>\<open>findQuarterKey\<close> and \<^verbatim>\<open>chooseBestDump\<close>:
  lower-case, then delete every match of the regular expression \<^verbatim>\<open>[^a-z0-9]\<close>.\<close>

definition normalize :: "string \<Rightarrow> string" where
  "normalize s = filter (\<lambda>c. isLower c \<or> isDigit c) (ToLower s)"

text \<open>
  \<^verbatim>\<open>strings.TrimSpace\<close> and \<^verbatim>\<open>bytes.TrimSpace\<close> remove the white space of Unicode at
  both ends: the six ASCII characters, U+0085 and U+00A0 (two bytes each in UTF-8),
  and U+1680, U+2000 to U+200A, U+2028, U+2029, U+202F, U+205F and U+3000 (three
  bytes each).
\<close>

definition asciiSpace :: "char \<Rightarrow> bool" where
  "asciiSpace c = (let n = (of_char c :: nat) in (9 \<le> n \<and> n \<le> 13) \<or> n = 32)"

definition space2 :: "char \<Rightarrow> char \<Rightarrow> bool" where
  "space2 a b = (a = CHR 0xC2 \<and> (b = CHR 0x85 \<or> b = CHR 0xA0))"

definition space3 :: "char \<Rightarrow> char \<Rightarrow> char \<Rightarrow> bool" where
  "space3 a b c =
     ((a = CHR 0xE1 \<and> b = CHR 0x9A \<and> c = CHR 0x80) \<or>
      (a = CHR 0xE2 \<and> b = CHR 0x80 \<and>
         (let n = (of_char c :: nat) in (128 \<le> n \<and> n \<le> 138) \<or> n = 168 \<or> n = 169 \<or> n = 175)) \<or>
      (a = CHR 0xE2 \<and> b = CHR 0x81 \<and> c = CHR 0x9F) \<or>
      (a = CHR 0xE3 \<and> b = CHR 0x80 \<and> c = CHR 0x80))"

fun TrimLeftSpace :: "string \<Rightarrow> string" where
  "TrimLeftSpace (a # b # c # rest) =
     (if asciiSpace a then TrimLeftSpace (b # c # rest)
      else if space2 a b then TrimLeftSpace (c # rest)
      else if space3 a b c then TrimLeftSpace rest
      else a # b # c # rest)"
| "TrimLeftSpace [a, b] =
     (if asciiSpace a then TrimLeftSpace [b] else if space2 a b then [] else [a, b])"
| "TrimLeftSpace [a] = (if asciiSpace a then [] else [a])"
| "TrimLeftSpace [] = []"

text \<open>The same from the end, on the reversed string (so the last byte comes first).\<close>

fun TrimRevSpace :: "string \<Rightarrow> string" where
  "TrimRevSpace (c # b # a # rest) =
     (if asciiSpace c then TrimRevSpace (b # a # rest)
      else if space2 b c then TrimRevSpace (a # rest)
      else if space3 a b c then TrimRevSpace rest
      else c # b # a # rest)"
| "TrimRevSpace [c, b] =
     (if asciiSpace c then TrimRevSpace [b] else if space2 b c then [] else [c, b])"
| "TrimRevSpace [c] = (if asciiSpace c then [] else [c])"
| "TrimRevSpace [] = []"

definition TrimSpace :: "string \<Rightarrow> string" where
  "TrimSpace s = rev (TrimRevSpace (rev (TrimLeftSpace s)))"

text \<open>\<^verbatim>\<open>strings.TrimRight(s, cutset)\<close> for a cutset of ASCII characters.\<close>

definition TrimRight :: "string \<Rightarrow> string \<Rightarrow> string" where
  "TrimRight s cutset = rev (dropWhile (\<lambda>c. c \<in> set cutset) (rev s))"

text \<open>\<^verbatim>\<open>strings.EqualFold(s, t)\<close> for a \<open>t\<close> of small ASCII letters other than
  \<^verbatim>\<open>k\<close> and \<^verbatim>\<open>s\<close> (the two that Unicode also folds with a letter outside ASCII)
  and of characters without case.\<close>

definition EqualFoldLower :: "string \<Rightarrow> string \<Rightarrow> bool" where
  "EqualFoldLower s t = (map lowerByte s = t)"

section \<open>Numbers and JSON values\<close>

text \<open>
  A \<^verbatim>\<open>float64\<close> is NaN, an infinity with its sign, or a finite value given by its
  sign bit (\<open>True\<close> for negative, so that both zeros exist) and its magnitude.
\<close>

datatype float64 = NaN | Inf64 bool | Fin64 bool rat

text \<open>The value of a finite \<^verbatim>\<open>float64\<close> as a rational number.\<close>

definition signedVal :: "bool \<Rightarrow> rat \<Rightarrow> rat" where
  "signedVal s q = (if s then - q else q)"

text \<open>Rounding of a rational number to the nearest integer, a tie going to the even one.\<close>

definition rhe :: "rat \<Rightarrow> int" where
  "rhe x =
     (let n = \<lfloor>x\<rfloor>; f = x - of_int n in
      if f < 1 / 2 then n else if 1 / 2 < f then n + 1 else if even n then n else n + 1)"

text \<open>The exponent \<open>e\<close> with \<open>2 powi e \<le> q < 2 powi (e + 1)\<close>, for a positive \<open>q\<close>.\<close>

definition ilog2 :: "rat \<Rightarrow> int" where
  "ilog2 q =
     (let (a, b) = quotient_of q; k = bitlen a - bitlen b in
      if 2 powi k \<le> q then k else k - 1)"

text \<open>
  Rounding of a magnitude to binary64, to nearest with ties to even: 53 significant
  bits, the unit of the last place never below \<open>2 powi (- 1074)\<close> (the subnormal
  numbers), and \<open>None\<close> when the rounded value reaches \<open>2 powi 1024\<close> (overflow).
\<close>

definition overflowBound :: rat where
  "overflowBound = 2 powi 1024"

definition round64 :: "rat \<Rightarrow> rat option" where
  "round64 q =
     (if q = 0 then Some 0
      else
        let e = max (ilog2 q) (- 1022);
            u = 2 powi (e - 52);
            r = of_int (rhe (q / u)) * u
        in if r < overflowBound then Some r else None)"

text \<open>The finite values that exist in binary64 are the ones rounding leaves alone.\<close>

definition valid64 :: "float64 \<Rightarrow> bool" where
  "valid64 x = (case x of Fin64 s q \<Rightarrow> 0 \<le> q \<and> round64 q = Some q | _ \<Rightarrow> True)"

text \<open>The result of an operation whose exact value is \<open>v\<close>; \<open>zs\<close> is the sign of an
  exact zero.\<close>

definition roundResult :: "bool \<Rightarrow> rat \<Rightarrow> float64" where
  "roundResult zs v =
     (if v = 0 then Fin64 zs 0
      else case round64 \<bar>v\<bar> of None \<Rightarrow> Inf64 (v < 0) | Some r \<Rightarrow> Fin64 (v < 0) r)"

fun fadd :: "float64 \<Rightarrow> float64 \<Rightarrow> float64" where
  "fadd NaN y = NaN"
| "fadd x NaN = NaN"
| "fadd (Inf64 s) (Inf64 t) = (if s = t then Inf64 s else NaN)"
| "fadd (Inf64 s) (Fin64 t q) = Inf64 s"
| "fadd (Fin64 s p) (Inf64 t) = Inf64 t"
| "fadd (Fin64 s p) (Fin64 t q) = roundResult (s \<and> t) (signedVal s p + signedVal t q)"

fun fneg :: "float64 \<Rightarrow> float64" where
  "fneg NaN = NaN"
| "fneg (Inf64 s) = Inf64 (\<not> s)"
| "fneg (Fin64 s q) = Fin64 (\<not> s) q"

definition fsub :: "float64 \<Rightarrow> float64 \<Rightarrow> float64" where
  "fsub x y = fadd x (fneg y)"

fun fmul :: "float64 \<Rightarrow> float64 \<Rightarrow> float64" where
  "fmul NaN y = NaN"
| "fmul x NaN = NaN"
| "fmul (Inf64 s) (Inf64 t) = Inf64 (s \<noteq> t)"
| "fmul (Inf64 s) (Fin64 t q) = (if q = 0 then NaN else Inf64 (s \<noteq> t))"
| "fmul (Fin64 s p) (Inf64 t) = (if p = 0 then NaN else Inf64 (s \<noteq> t))"
| "fmul (Fin64 s p) (Fin64 t q) = roundResult (s \<noteq> t) (signedVal (s \<noteq> t) (p * q))"

fun fdiv :: "float64 \<Rightarrow> float64 \<Rightarrow> float64" where
  "fdiv NaN y = NaN"
| "fdiv x NaN = NaN"
| "fdiv (Inf64 s) (Inf64 t) = NaN"
| "fdiv (Inf64 s) (Fin64 t q) = Inf64 (s \<noteq> t)"
| "fdiv (Fin64 s p) (Inf64 t) = Fin64 (s \<noteq> t) 0"
| "fdiv (Fin64 s p) (Fin64 t q) =
     (if q = 0 then (if p = 0 then NaN else Inf64 (s \<noteq> t))
      else roundResult (s \<noteq> t) (signedVal (s \<noteq> t) (p / q)))"

text \<open>\<^verbatim>\<open>math.Abs\<close>, \<^verbatim>\<open>math.IsNaN\<close>, the comparison \<^verbatim>\<open>x == 0\<close> (true of both zeros)
  and the conversion \<^verbatim>\<open>float64(n)\<close> of a small count.\<close>

fun fabs :: "float64 \<Rightarrow> float64" where
  "fabs NaN = NaN"
| "fabs (Inf64 s) = Inf64 False"
| "fabs (Fin64 s q) = Fin64 False q"

fun IsNaN :: "float64 \<Rightarrow> bool" where
  "IsNaN NaN = True"
| "IsNaN _ = False"

fun isZero :: "float64 \<Rightarrow> bool" where
  "isZero (Fin64 s q) = (q = 0)"
| "isZero _ = False"

definition float64_of_nat :: "nat \<Rightarrow> float64" where
  "float64_of_nat n = roundResult False (of_nat n)"

subsection \<open>Formatting a number\<close>

definition digitChar :: "nat \<Rightarrow> char" where
  "digitChar d = char_of (48 + d)"

fun decimal :: "nat \<Rightarrow> string" where
  "decimal n = (if n < 10 then [digitChar n] else decimal (n div 10) @ [digitChar (n mod 10)])"

declare decimal.simps [simp del]

text \<open>
  \<^verbatim>\<open>strconv.FormatFloat(f, 'f', 2, 64)\<close>: the exact value rounded to two decimals (a tie
  to the even digit), with the sign of a negative number or zero.
\<close>

fun FormatFloat_f2 :: "float64 \<Rightarrow> string" where
  "FormatFloat_f2 NaN = ''NaN''"
| "FormatFloat_f2 (Inf64 s) = (if s then ''-Inf'' else ''+Inf'')"
| "FormatFloat_f2 (Fin64 s q) =
     (let n = nat (rhe (q * 100)) in
      (if s then ''-'' else []) @ decimal (n div 100) @ ''.'' @
      [digitChar (n div 10 mod 10), digitChar (n mod 10)])"

definition formatFloat :: "float64 \<Rightarrow> string" where
  "formatFloat f = TrimRight (TrimRight (FormatFloat_f2 f) ''0'') ''.''"

subsection \<open>Parsing a number\<close>

text \<open>
  \<^verbatim>\<open>strconv.ParseFloat(s, 64)\<close>: \<open>None\<close> stands for every error (syntax or range), since
  both callers only look at \<^verbatim>\<open>err == nil\<close>. The accepted texts are \<^verbatim>\<open>NaN\<close>, a signed
  \<^verbatim>\<open>Inf\<close> or \<^verbatim>\<open>Infinity\<close> (in any case), and the decimal and hexadecimal literals of
  Go with an optional sign; the result is the exact value of the literal, rounded.
\<close>

fun commonPrefixLenIgnoreCase :: "string \<Rightarrow> string \<Rightarrow> nat" where
  "commonPrefixLenIgnoreCase (c # cs) (p # ps) =
     (if lowerByte c = p then Suc (commonPrefixLenIgnoreCase cs ps) else 0)"
| "commonPrefixLenIgnoreCase cs ps = 0"

definition infinityLen :: "string \<Rightarrow> nat option" where
  "infinityLen s =
     (let n = commonPrefixLenIgnoreCase s ''infinity'';
          n' = (if 3 < n \<and> n < 8 then 3 else n)
      in if n' = 3 \<or> n' = 8 then Some n' else None)"

definition special :: "string \<Rightarrow> (float64 \<times> nat) option" where
  "special s =
     (case s of
        [] \<Rightarrow> None
      | c # cs \<Rightarrow>
          if c = CHR ''+'' \<or> c = CHR ''-'' then
            (case infinityLen cs of Some n \<Rightarrow> Some (Inf64 (c = CHR ''-''), 1 + n) | None \<Rightarrow> None)
          else if c = CHR ''i'' \<or> c = CHR ''I'' then
            (case infinityLen s of Some n \<Rightarrow> Some (Inf64 False, n) | None \<Rightarrow> None)
          else if c = CHR ''n'' \<or> c = CHR ''N'' then
            (if commonPrefixLenIgnoreCase s ''nan'' = 3 then Some (NaN, 3) else None)
          else None)"

definition isHexLetter :: "char \<Rightarrow> bool" where
  "isHexLetter c = (let n = (of_char (lowerByte c) :: nat) in 97 \<le> n \<and> n \<le> 102)"

definition digitVal :: "char \<Rightarrow> nat" where
  "digitVal c = (of_char c :: nat) - 48"

definition hexLetterVal :: "char \<Rightarrow> nat" where
  "hexLetterVal c = (of_char (lowerByte c) :: nat) - 97 + 10"

text \<open>The digits of a literal: the value of all digits read so far, the number of
  them after the point, three flags, and the number of characters read.\<close>

record mantissa =
  digitsVal :: nat
  fracDigits :: nat
  sawdot :: bool
  sawdigits :: bool
  underscores :: bool
  used :: nat

fun readDigits :: "bool \<Rightarrow> string \<Rightarrow> mantissa \<Rightarrow> mantissa \<times> string" where
  "readDigits hex [] st = (st, [])"
| "readDigits hex (c # cs) st =
     (if c = CHR ''_'' then
        readDigits hex cs (st\<lparr>underscores := True, used := used st + 1\<rparr>)
      else if c = CHR ''.'' then
        (if sawdot st then (st, c # cs)
         else readDigits hex cs (st\<lparr>sawdot := True, used := used st + 1\<rparr>))
      else if isDigit c then
        readDigits hex cs
          (st\<lparr>digitsVal := digitsVal st * (if hex then 16 else 10) + digitVal c,
              fracDigits := (if sawdot st then fracDigits st + 1 else fracDigits st),
              sawdigits := True, used := used st + 1\<rparr>)
      else if hex \<and> isHexLetter c then
        readDigits hex cs
          (st\<lparr>digitsVal := digitsVal st * 16 + hexLetterVal c,
              fracDigits := (if sawdot st then fracDigits st + 1 else fracDigits st),
              sawdigits := True, used := used st + 1\<rparr>)
      else (st, c # cs))"

text \<open>The digits of an exponent: the value stops growing once it has reached 10000.
  The result is the exponent, whether an underscore was seen, and the number of
  characters read.\<close>

fun readExpDigits :: "string \<Rightarrow> nat \<Rightarrow> bool \<Rightarrow> nat \<Rightarrow> nat \<times> bool \<times> nat" where
  "readExpDigits [] e us n = (e, us, n)"
| "readExpDigits (c # cs) e us n =
     (if c = CHR ''_'' then readExpDigits cs e True (n + 1)
      else if isDigit c then
        readExpDigits cs (if e < 10000 then e * 10 + digitVal c else e) us (n + 1)
      else (e, us, n))"

text \<open>\<^verbatim>\<open>underscoreOK\<close>: an underscore only between digits, or between a base prefix and a
  digit.\<close>

datatype saw = SawStart | SawDigit | SawUnderscore | SawOther

fun underscoreScan :: "bool \<Rightarrow> string \<Rightarrow> saw \<Rightarrow> bool" where
  "underscoreScan hex [] sw = (sw \<noteq> SawUnderscore)"
| "underscoreScan hex (c # cs) sw =
     (if isDigit c \<or> (hex \<and> isHexLetter c) then underscoreScan hex cs SawDigit
      else if c = CHR ''_'' then (sw = SawDigit \<and> underscoreScan hex cs SawUnderscore)
      else if sw = SawUnderscore then False
      else underscoreScan hex cs SawOther)"

definition underscoreOK :: "string \<Rightarrow> bool" where
  "underscoreOK s0 =
     (let s = (case s0 of c # cs \<Rightarrow> if c = CHR ''-'' \<or> c = CHR ''+'' then cs else s0 | [] \<Rightarrow> s0)
      in case s of
           a # b # rest \<Rightarrow>
             if a = CHR ''0'' \<and> lowerByte b \<in> {CHR ''b'', CHR ''o'', CHR ''x''}
             then underscoreScan (lowerByte b = CHR ''x'') rest SawDigit
             else underscoreScan False s SawStart
         | _ \<Rightarrow> underscoreScan False s SawStart)"

text \<open>The test for the prefix \<^verbatim>\<open>0x\<close> of a hexadecimal literal, which needs one more
  character after it.\<close>

definition isHexPrefix :: "string \<Rightarrow> bool" where
  "isHexPrefix s1 =
     (case s1 of a # b # c # rest \<Rightarrow> a = CHR ''0'' \<and> lowerByte b = CHR ''x'' | _ \<Rightarrow> False)"

definition mantissaValue :: "bool \<Rightarrow> mantissa \<Rightarrow> rat" where
  "mantissaValue hex m = of_nat (digitsVal m) / of_nat ((if hex then 16 else 10) ^ fracDigits m)"

text \<open>The end of \<^verbatim>\<open>readFloat\<close>: the literal \<open>take n s\<close> is refused when it has
  underscores in the wrong places.\<close>

definition finishFloat :: "string \<Rightarrow> bool \<Rightarrow> rat \<Rightarrow> bool \<Rightarrow> nat \<Rightarrow> (bool \<times> rat \<times> nat) option" where
  "finishFloat s neg v us n = (if us \<and> \<not> underscoreOK (take n s) then None else Some (neg, v, n))"

text \<open>The optional exponent after the digits \<open>m\<close>, read from \<open>rest\<close>: \<^verbatim>\<open>e\<close> and a power
  of ten for a decimal literal, \<^verbatim>\<open>p\<close> and a power of two for a hexadecimal one, which
  must have it.\<close>

definition readExponent ::
  "string \<Rightarrow> bool \<Rightarrow> bool \<Rightarrow> mantissa \<Rightarrow> string \<Rightarrow> (bool \<times> rat \<times> nat) option"
where
  "readExponent s neg hex m rest =
     (case rest of
        c # cs \<Rightarrow>
          if lowerByte c = (if hex then CHR ''p'' else CHR ''e'') then
            (case cs of
               [] \<Rightarrow> None
             | d # ds \<Rightarrow>
                 let esignLen = (if d = CHR ''+'' \<or> d = CHR ''-'' then 1 else 0);
                     es = drop esignLen cs
                 in
                 (case es of
                    [] \<Rightarrow> None
                  | x # xs \<Rightarrow>
                      if \<not> isDigit x then None
                      else
                        let (e, us, n) = readExpDigits es 0 (underscores m) (used m + 1 + esignLen);
                            ex = (if d = CHR ''-'' then - int e else int e)
                        in finishFloat s neg
                             (mantissaValue hex m * (if hex then 2 else 10) powi ex) us n))
          else if hex then None
          else finishFloat s neg (mantissaValue hex m) (underscores m) (used m)
      | [] \<Rightarrow> if hex then None else finishFloat s neg (mantissaValue hex m) (underscores m) (used m))"

text \<open>\<^verbatim>\<open>readFloat\<close>: the sign, the exact value of the literal and the number of characters
  it takes, or \<open>None\<close> when the text does not start with a literal.\<close>

definition readFloat :: "string \<Rightarrow> (bool \<times> rat \<times> nat) option" where
  "readFloat s =
     (case s of
        [] \<Rightarrow> None
      | c0 # cs0 \<Rightarrow>
          let neg = (c0 = CHR ''-'');
              signLen = (if c0 = CHR ''+'' \<or> c0 = CHR ''-'' then 1 else 0);
              s1 = drop signLen s;
              hex = isHexPrefix s1;
              preLen = (if hex then 2 else 0);
              (m, rest) = readDigits hex (drop preLen s1)
                 \<lparr>digitsVal = 0, fracDigits = 0, sawdot = False, sawdigits = False,
                  underscores = False, used = signLen + preLen\<rparr>
          in if \<not> sawdigits m then None else readExponent s neg hex m rest)"

definition ParseFloat :: "string \<Rightarrow> float64 option" where
  "ParseFloat s =
     (case special s of
        Some (f, n) \<Rightarrow> if n = length s then Some f else None
      | None \<Rightarrow>
          (case readFloat s of
             None \<Rightarrow> None
           | Some (neg, v, n) \<Rightarrow>
               if n \<noteq> length s then None
               else (case round64 v of None \<Rightarrow> None | Some r \<Rightarrow> Some (Fin64 neg r))))"

text \<open>
  What \<^verbatim>\<open>json.Unmarshal\<close> stores in an \<^verbatim>\<open>interface{}\<close>: nil, a bool, a float64, a
  string, a slice or a map. A map is a list of its entries; the order of the list is
  the order in which a \<^verbatim>\<open>range\<close> loop visits them, which Go leaves open, so a
  property of the program is proved for every order.
\<close>

datatype json =
    JNull
  | JBool bool
  | JNum float64
  | JStr string
  | JArr "json list"
  | JObj "(string \<times> json) list"

type_synonym jobject = "(string \<times> json) list"

section \<open>Choosing the group of a payload\<close>

text \<open>The inner loop of \<^verbatim>\<open>chooseBestDump\<close> over the targets, left by \<^verbatim>\<open>break\<close> at the
  first target that matches the key.\<close>

fun targetHit :: "string \<Rightarrow> string list \<Rightarrow> bool" where
  "targetHit nmk [] = False"
| "targetHit nmk (t # ts) =
     (if t = nmk \<or> Contains nmk t \<or> Contains t nmk then True else targetHit nmk ts)"

text \<open>The loop over the keys of one candidate; the third argument is \<^verbatim>\<open>score\<close>.\<close>

fun scoreKeys :: "string list \<Rightarrow> jobject \<Rightarrow> int \<Rightarrow> int" where
  "scoreKeys targets [] score = score"
| "scoreKeys targets ((mk, v) # rest) score =
     scoreKeys targets rest (if targetHit (normalize mk) targets then score + 1 else score)"

text \<open>The loop over the candidates; the state is \<^verbatim>\<open>bestKey\<close>, \<^verbatim>\<open>bestScore\<close>,
  \<^verbatim>\<open>bestMap\<close> (\<open>None\<close> for nil).\<close>

fun chooseLoop ::
  "string list \<Rightarrow> jobject \<Rightarrow> string \<times> int \<times> jobject option \<Rightarrow> string \<times> int \<times> jobject option"
where
  "chooseLoop targets [] st = st"
| "chooseLoop targets ((k, v) # rest) (bestKey, bestScore, bestMap) =
     (case v of
        JObj m \<Rightarrow>
          (let score = scoreKeys targets m 0 in
           if score > bestScore then chooseLoop targets rest (k, score, Some m)
           else chooseLoop targets rest (bestKey, bestScore, bestMap))
      | _ \<Rightarrow> chooseLoop targets rest (bestKey, bestScore, bestMap))"

definition chooseBestDump :: "jobject \<Rightarrow> string list \<Rightarrow> jobject option" where
  "chooseBestDump qd qOrder =
     (let targets = map normalize qOrder in
      snd (snd (chooseLoop targets qd ([], - 1, None))))"

text \<open>The closure \<^verbatim>\<open>findQuarterKey\<close>: two loops over the keys of the group; the empty
  string is returned when neither finds a key.\<close>

fun findExact :: "string \<Rightarrow> jobject \<Rightarrow> string option" where
  "findExact nq [] = None"
| "findExact nq ((k, v) # rest) = (if nq = normalize k then Some k else findExact nq rest)"

fun findContain :: "string \<Rightarrow> jobject \<Rightarrow> string option" where
  "findContain nq [] = None"
| "findContain nq ((k, v) # rest) =
     (let nk = normalize k in
      if Contains nk nq \<or> Contains nq nk then Some k else findContain nq rest)"

definition findQuarterKey :: "jobject \<Rightarrow> string \<Rightarrow> string" where
  "findQuarterKey d q =
     (let nq = normalize q in
      case findExact nq d of
        Some k \<Rightarrow> k
      | None \<Rightarrow> (case findContain nq d of Some k \<Rightarrow> k | None \<Rightarrow> []))"

section \<open>Extracting the values of a quarter\<close>

text \<open>
  \<^verbatim>\<open>json.Marshal\<close> is a parameter \<open>marshal\<close> of the model: the text it gives for a bool,
  a slice or a map, and the empty text where it returns an error (its error is
  dropped by the caller, which only tests \<^verbatim>\<open>len(b) > 0\<close>).
\<close>

definition notDeclared :: string where
  "notDeclared = ''not declared''"

fun valueFromMap :: "(json \<Rightarrow> string) \<Rightarrow> jobject \<Rightarrow> string list \<Rightarrow> string" where
  "valueFromMap marshal m [] = notDeclared"
| "valueFromMap marshal m (k # keys) =
     (case map_of m k of
        None \<Rightarrow> valueFromMap marshal m keys
      | Some JNull \<Rightarrow> valueFromMap marshal m keys
      | Some (JNum vv) \<Rightarrow> formatFloat vv
      | Some (JStr vv) \<Rightarrow>
          (case ParseFloat vv of
             Some f \<Rightarrow> formatFloat f
           | None \<Rightarrow> if vv = [] then valueFromMap marshal m keys else vv)
      | Some v \<Rightarrow>
          (let b = marshal v in if length b > 0 then b else valueFromMap marshal m keys))"

definition quarterValueToFloat64 :: "string \<Rightarrow> float64" where
  "quarterValueToFloat64 q =
     (let s = TrimSpace q in
      if s = [] \<or> EqualFoldLower s ''not declared'' then NaN
      else
        (case ParseFloat (filter (\<lambda>c. c \<noteq> CHR '','') s) of
           Some f \<Rightarrow> f
         | None \<Rightarrow> NaN))"

section \<open>Parsing the fundamentals of a company\<close>

record CompanyResult =
  Company :: string
  LongName :: string
  Quarters :: "string list"
  Revenue :: "string list"
  NetProfit :: "string list"
  RevenueNums :: "float64 list"
  NetProfitNums :: "float64 list"

text \<open>The type assertions \<^verbatim>\<open>.(map[string]interface{})\<close>, \<^verbatim>\<open>.([]interface{})\<close> and
  \<^verbatim>\<open>.(string)\<close> on the result of a map lookup.\<close>

fun asObject :: "json option \<Rightarrow> jobject option" where
  "asObject (Some (JObj m)) = Some m"
| "asObject _ = None"

fun asArray :: "json option \<Rightarrow> json list option" where
  "asArray (Some (JArr xs)) = Some xs"
| "asArray _ = None"

fun stringsOf :: "json list \<Rightarrow> string list" where
  "stringsOf [] = []"
| "stringsOf (JStr s # rest) = s # stringsOf rest"
| "stringsOf (v # rest) = stringsOf rest"

definition quarterlyOrder :: "jobject option \<Rightarrow> string list" where
  "quarterlyOrder body =
     (case body of
        None \<Rightarrow> []
      | Some b \<Rightarrow> (case asArray (map_of b ''quarterlyOrder'') of Some qo \<Rightarrow> stringsOf qo | None \<Rightarrow> []))"

definition selectDump :: "jobject option \<Rightarrow> string list \<Rightarrow> jobject option" where
  "selectDump body qOrder =
     (case body of
        None \<Rightarrow> None
      | Some b \<Rightarrow>
          (case asObject (map_of b ''quarterlyDataDump'') of
             Some qd \<Rightarrow> chooseBestDump qd qOrder
           | None \<Rightarrow> None))"

text \<open>One round of the loop over the quarters: the revenue and the net profit of
  quarter \<open>q\<close>.\<close>

definition quarterValues :: "(json \<Rightarrow> string) \<Rightarrow> jobject option \<Rightarrow> string \<Rightarrow> string \<times> string" where
  "quarterValues marshal dump q =
     (case dump of
        None \<Rightarrow> (notDeclared, notDeclared)
      | Some d \<Rightarrow>
          (case asObject (map_of d q) of
             Some qmap \<Rightarrow>
               (valueFromMap marshal qmap [''TOTAL_SR_Q'', ''SR_Q''], valueFromMap marshal qmap [''NP_Q''])
           | None \<Rightarrow>
               (let alt = findQuarterKey d q in
                if alt \<noteq> [] then
                  (case asObject (map_of d alt) of
                     Some qmap \<Rightarrow>
                       (valueFromMap marshal qmap [''TOTAL_SR_Q'', ''SR_Q''],
                        valueFromMap marshal qmap [''NP_Q''])
                   | None \<Rightarrow> (notDeclared, notDeclared))
                else (notDeclared, notDeclared))))"

text \<open>The loop \<^verbatim>\<open>for len(cr.Quarters) < 4\<close>, on one of the three slices.\<close>

definition padTo4 :: "'a \<Rightarrow> 'a list \<Rightarrow> 'a list" where
  "padTo4 x xs = xs @ replicate (4 - length xs) x"

datatype unmarshal_error = UnmarshalError

text \<open>
  \<^verbatim>\<open>ParseCompanyFundamentals\<close>. Its second argument is what
  \<^verbatim>\<open>json.Unmarshal(fundJSON, &root)\<close> gives: an error, or the map \<^verbatim>\<open>root\<close> (empty for
  the payload \<^verbatim>\<open>null\<close>).
\<close>

definition ParseCompanyFundamentals ::
  "(json \<Rightarrow> string) \<Rightarrow> string \<Rightarrow> unmarshal_error + jobject \<Rightarrow> CompanyResult"
where
  "ParseCompanyFundamentals marshal shortName decoded =
     (let cr = \<lparr>Company = shortName, LongName = [], Quarters = [], Revenue = [], NetProfit = [],
                RevenueNums = [], NetProfitNums = []\<rparr>
      in case decoded of
           Inl err \<Rightarrow> cr
         | Inr rootMap \<Rightarrow>
             let body = asObject (map_of rootMap ''body'');
                 qOrder = quarterlyOrder body;
                 dump = selectDump body qOrder;
                 qs = take 4 qOrder;
                 vals = map (quarterValues marshal dump) qs;
                 revenue = padTo4 notDeclared (map fst vals);
                 netProfit = padTo4 notDeclared (map snd vals)
             in cr\<lparr>Quarters := padTo4 [] qs, Revenue := revenue, NetProfit := netProfit,
                   RevenueNums := map quarterValueToFloat64 revenue,
                   NetProfitNums := map quarterValueToFloat64 netProfit\<rparr>)"

section \<open>Fetching the payload\<close>

text \<open>
  A call either returns or panics. The three fetching functions build their request
  with \<^verbatim>\<open>req, _ := http.NewRequest(...)\<close> and go on to \<^verbatim>\<open>req.Header.Set\<close>: when
  \<^verbatim>\<open>http.NewRequest\<close> refuses the address (it cannot be parsed as a URL), \<^verbatim>\<open>req\<close> is nil
  and the call panics.
\<close>

datatype 'a outcome = Panics | Returns 'a

text \<open>What the HTTP client gives \<^verbatim>\<open>FetchFundamentalsJSON\<close>: the request cannot be built,
  or \<^verbatim>\<open>client.Do\<close> fails, or reading the body fails, or there is a body (the status
  code is not looked at).\<close>

datatype http_response = RequestFailed | DoFailed | ReadFailed | Body string

datatype fetch_error = TransportError | ReadError | EmptyResponse

text \<open>The test of the first byte that decides whether a diagnostic is logged.\<close>

definition startsWithJSONToken :: "string \<Rightarrow> bool" where
  "startsWithJSONToken clean = (case clean of c # cs \<Rightarrow> c = CHR ''{'' \<or> c = CHR ''['' | [] \<Rightarrow> False)"

definition FetchFundamentalsJSON :: "http_response \<Rightarrow> (fetch_error + string) outcome" where
  "FetchFundamentalsJSON resp =
     (case resp of
        RequestFailed \<Rightarrow> Panics
      | DoFailed \<Rightarrow> Returns (Inl TransportError)
      | ReadFailed \<Rightarrow> Returns (Inl ReadError)
      | Body b \<Rightarrow>
          (let clean = TrimSpace b in
           if length clean = 0 then Returns (Inl EmptyResponse)
           else Returns (Inr clean)))"

section \<open>The task of one company and the gathering of the results\<close>

record BSEItem =
  ScripCode :: string
  ShortName :: string
  ItemLongName :: string
  MeetingDate :: string
  URL :: string

record TrendItem =
  ID :: string
  Label :: string
  K :: int
  SlugName :: string
  NextURL :: string

text \<open>
  What lies outside the program, as functions of the request: the search
  (\<^verbatim>\<open>FetchTrendSearch\<close>, by short name: a panic, an error, or the items), the scan of the
  page for the address of the payload (\<^verbatim>\<open>ExtractFundamentalsURLFromPage\<close>, by page
  address: a panic, an error, or the address), the HTTP GET of the payload (by address
  and referer), and the two functions of \<^verbatim>\<open>encoding/json\<close>.
\<close>

record world =
  trendSearch :: "string \<Rightarrow> (unit + TrendItem list) outcome"
  extractURL :: "string \<Rightarrow> (unit + string) outcome"
  httpGet :: "string \<Rightarrow> string \<Rightarrow> http_response"
  unmarshal :: "string \<Rightarrow> unmarshal_error + jobject"
  marshalJSON :: "json \<Rightarrow> string"

datatype task_error = TrendSearchError | NoTrendResults | ExtractError | FetchError fetch_error

text \<open>The verb \<^verbatim>\<open>%d\<close> of \<^verbatim>\<open>fmt.Sprintf\<close>.\<close>

definition showInt :: "int \<Rightarrow> string" where
  "showInt i = (if i < 0 then ''-'' @ decimal (nat (- i)) else decimal (nat i))"

text \<open>The body of the goroutine started for one item, up to the fetch of the payload:
  a panic, or an error, or the bytes that \<^verbatim>\<open>FetchFundamentalsJSON\<close> returned.\<close>

definition fetchPayload :: "world \<Rightarrow> BSEItem \<Rightarrow> (task_error + string) outcome" where
  "fetchPayload w itm =
     (case trendSearch w (ShortName itm) of
        Panics \<Rightarrow> Panics
      | Returns (Inl err) \<Rightarrow> Returns (Inl TrendSearchError)
      | Returns (Inr trendItems) \<Rightarrow>
          (case trendItems of
             [] \<Rightarrow> Returns (Inl NoTrendResults)
           | tr # others \<Rightarrow>
               let pageURL =
                     (if NextURL tr = [] then
                        ''https://trendlyne.com/equity/'' @ showInt (K tr) @ ''/'' @ ID tr @ ''/'' @
                        SlugName tr @ ''/''
                      else NextURL tr)
               in
               (case extractURL w pageURL of
                  Panics \<Rightarrow> Panics
                | Returns (Inl err) \<Rightarrow> Returns (Inl ExtractError)
                | Returns (Inr fundURL) \<Rightarrow>
                    (case FetchFundamentalsJSON (httpGet w fundURL pageURL) of
                       Panics \<Rightarrow> Panics
                     | Returns (Inl err) \<Rightarrow> Returns (Inl (FetchError err))
                     | Returns (Inr fundJSON) \<Rightarrow> Returns (Inr fundJSON)))))"

text \<open>The whole body: a panic, or the value it sends on \<^verbatim>\<open>resultsCh\<close>, an error or a
  \<^verbatim>\<open>CompanyResult\<close> with the long name attached.\<close>

definition worker :: "world \<Rightarrow> BSEItem \<Rightarrow> (task_error + CompanyResult) outcome" where
  "worker w itm =
     (case fetchPayload w itm of
        Panics \<Rightarrow> Panics
      | Returns (Inl err) \<Rightarrow> Returns (Inl err)
      | Returns (Inr fundJSON) \<Rightarrow>
          Returns (Inr ((ParseCompanyFundamentals (marshalJSON w) (ShortName itm) (unmarshal w fundJSON))
                 \<lparr>LongName := ItemLongName itm\<rparr>)))"

text \<open>The loop over \<^verbatim>\<open>resultsCh\<close>: a failed entry is skipped.\<close>

fun gather :: "(task_error + CompanyResult) list \<Rightarrow> CompanyResult list" where
  "gather [] = []"
| "gather (Inl err # rs) = gather rs"
| "gather (Inr cr # rs) = cr # gather rs"

text \<open>
  The batch of \<^verbatim>\<open>main\<close>, with the goroutines taken one after the other: a panic in a
  goroutine is not recovered and ends the program; otherwise every goroutine sends
  one value and the loop over \<^verbatim>\<open>resultsCh\<close> gathers them (here in the order of the items;
  the program gathers them in the order in which they are sent).
\<close>

fun sentValues :: "world \<Rightarrow> BSEItem list \<Rightarrow> (task_error + CompanyResult) list outcome" where
  "sentValues w [] = Returns []"
| "sentValues w (itm # items) =
     (case worker w itm of
        Panics \<Rightarrow> Panics
      | Returns r \<Rightarrow> (case sentValues w items of Panics \<Rightarrow> Panics | Returns rs \<Rightarrow> Returns (r # rs)))"

definition runBatch :: "world \<Rightarrow> BSEItem list \<Rightarrow> CompanyResult list outcome" where
  "runBatch w items = (case sentValues w items of Panics \<Rightarrow> Panics | Returns rs \<Rightarrow> Returns (gather rs))"

section \<open>The figures of the report\<close>

text \<open>\<^verbatim>\<open>avgFloats\<close>: the loop with its variables \<^verbatim>\<open>sum\<close> (here \<open>acc\<close>) and \<^verbatim>\<open>count\<close>.\<close>

fun avgLoop :: "float64 list \<Rightarrow> float64 \<Rightarrow> nat \<Rightarrow> float64 \<times> nat" where
  "avgLoop [] acc count = (acc, count)"
| "avgLoop (v # vs) acc count =
     (if \<not> IsNaN v then avgLoop vs (fadd acc v) (count + 1) else avgLoop vs acc count)"

definition avgFloats :: "float64 list \<Rightarrow> float64" where
  "avgFloats vals =
     (let (acc, count) = avgLoop vals (Fin64 False 0) 0 in
      if count = 0 then NaN else fdiv acc (float64_of_nat count))"

definition pctOrNaN :: "float64 \<Rightarrow> float64 \<Rightarrow> float64" where
  "pctOrNaN cur prev =
     (if IsNaN cur \<or> IsNaN prev then NaN
      else if isZero prev then NaN
      else fmul (fdiv (fsub cur prev) (fabs prev)) (Fin64 False 100))"

text \<open>The four sort values that \<^verbatim>\<open>GenerateHTMLReport\<close> computes for a row: the change of
  the latest quarter and the change of the average of three, for revenue and for net
  profit.\<close>

record rowStats =
  revPctNum :: float64
  npPctNum :: float64
  avg3RevPctNum :: float64
  avg3NPPctNum :: float64

definition latestChange :: "float64 list \<Rightarrow> float64" where
  "latestChange nums =
     (let latest = (if length nums > 0 then nums ! 0 else NaN);
          prev = (if length nums > 1 then nums ! 1 else NaN)
      in pctOrNaN latest prev)"

definition avg3Change :: "float64 list \<Rightarrow> float64" where
  "avg3Change nums =
     (let avg3 = (if length nums \<ge> 3 then avgFloats (take (min 3 (length nums)) nums) else NaN);
          avgPrev3 = (if length nums \<ge> 4 then avgFloats (take 3 (drop 1 nums)) else NaN)
      in pctOrNaN avg3 avgPrev3)"

definition rowStatsOf :: "CompanyResult \<Rightarrow> rowStats" where
  "rowStatsOf r =
     \<lparr>revPctNum = latestChange (RevenueNums r), npPctNum = latestChange (NetProfitNums r),
      avg3RevPctNum = avg3Change (RevenueNums r), avg3NPPctNum = avg3Change (NetProfitNums r)\<rparr>"

section \<open>Notions used in the statements\<close>

fun isObject :: "json \<Rightarrow> bool" where
  "isObject (JObj m) = True"
| "isObject _ = False"

text \<open>The score that \<^verbatim>\<open>chooseBestDump\<close> gives a candidate.\<close>

definition objectScore :: "string list \<Rightarrow> jobject \<Rightarrow> int" where
  "objectScore qOrder m = scoreKeys (map normalize qOrder) m 0"

text \<open>A key of a candidate matches when some expected period, normalized, is equal to
  the normalized key, or one contains the other.\<close>

definition keyMatches :: "string list \<Rightarrow> string \<Rightarrow> bool" where
  "keyMatches qOrder mk =
     (\<exists>q \<in> set qOrder. normalize q = normalize mk \<or> Contains (normalize mk) (normalize q)
        \<or> Contains (normalize q) (normalize mk))"

text \<open>The score as the specification words it: the number of expected periods that
  have a match among the keys of the candidate.\<close>

definition periodMatched :: "jobject \<Rightarrow> string \<Rightarrow> bool" where
  "periodMatched m q =
     list_ex (\<lambda>mk. normalize q = normalize mk \<or> Contains (normalize mk) (normalize q)
        \<or> Contains (normalize q) (normalize mk)) (map fst m)"

definition specScore :: "string list \<Rightarrow> jobject \<Rightarrow> int" where
  "specScore qOrder m = int (length (filter (periodMatched m) qOrder))"

text \<open>Bounds on the scores of the candidates of a list, and the candidate that the loop
  of \<^verbatim>\<open>chooseBestDump\<close> keeps: every candidate before it scores less, none after it
  scores more.\<close>

definition below :: "string list \<Rightarrow> int \<Rightarrow> jobject \<Rightarrow> bool" where
  "below ts b qd = (\<forall>k m. (k, JObj m) \<in> set qd \<longrightarrow> scoreKeys ts m 0 \<le> b)"

definition sbelow :: "string list \<Rightarrow> int \<Rightarrow> jobject \<Rightarrow> bool" where
  "sbelow ts b qd = (\<forall>k m. (k, JObj m) \<in> set qd \<longrightarrow> scoreKeys ts m 0 < b)"

definition picked :: "string list \<Rightarrow> jobject \<Rightarrow> string \<Rightarrow> jobject \<Rightarrow> bool" where
  "picked ts qd k m = (\<exists>pre post. qd = pre @ (k, JObj m) # post \<and>
      sbelow ts (scoreKeys ts m 0) pre \<and> below ts (scoreKeys ts m 0) post)"

text \<open>
  The words of the specification for \<^verbatim>\<open>valueFromMap\<close>: a value is usable when it is
  not null and not empty; a usable value is coerced to a text (a number is formatted,
  a string that parses as a number is formatted as that number, another string is
  taken as it is, any other value is serialized).
\<close>

fun usable :: "(json \<Rightarrow> string) \<Rightarrow> json \<Rightarrow> bool" where
  "usable marshal JNull = False"
| "usable marshal (JNum f) = True"
| "usable marshal (JStr s) = (s \<noteq> [])"
| "usable marshal v = (marshal v \<noteq> [])"

fun coerce :: "(json \<Rightarrow> string) \<Rightarrow> json \<Rightarrow> string" where
  "coerce marshal (JNum f) = formatFloat f"
| "coerce marshal (JStr s) = (case ParseFloat s of Some f \<Rightarrow> formatFloat f | None \<Rightarrow> s)"
| "coerce marshal v = marshal v"

fun firstUsable :: "(json \<Rightarrow> string) \<Rightarrow> jobject \<Rightarrow> string list \<Rightarrow> json option" where
  "firstUsable marshal m [] = None"
| "firstUsable marshal m (k # keys) =
     (case map_of m k of
        None \<Rightarrow> firstUsable marshal m keys
      | Some v \<Rightarrow> if usable marshal v then Some v else firstUsable marshal m keys)"

fun isComposite :: "json \<Rightarrow> bool" where
  "isComposite (JBool b) = True"
| "isComposite (JArr xs) = True"
| "isComposite (JObj m) = True"
| "isComposite v = False"


text \<open>An item and a world to run the task of one company in: one search result, an
  address found on its page, and a given body and a given outcome of decoding it. A
  search term with an ASCII control character makes an address that
  \<^verbatim>\<open>http.NewRequest\<close> refuses, so the search for it panics.\<close>

definition acmeItem :: BSEItem where
  "acmeItem = \<lparr>ScripCode = ''500001'', ShortName = ''ACME'', ItemLongName = ''Acme Ltd'',
     MeetingDate = ''30 Oct 2026'', URL = []\<rparr>"

definition hasControlChar :: "string \<Rightarrow> bool" where
  "hasControlChar s = list_ex (\<lambda>c. (of_char c :: nat) < 32 \<or> (of_char c :: nat) = 127) s"

definition acmeWorld :: "string \<Rightarrow> unmarshal_error + jobject \<Rightarrow> world" where
  "acmeWorld body decoded =
     \<lparr>trendSearch = (\<lambda>term.
        if hasControlChar term then Panics
        else Returns (Inr [\<lparr>ID = ''7'', Label = ''Acme'', K = 12, SlugName = ''acme-ltd'', NextURL = []\<rparr>])),
      extractURL = (\<lambda>page. Returns (Inr ''https://trendlyne.com/get-fundamental_results/7/'')),
      httpGet = (\<lambda>url referer. Body body),
      unmarshal = (\<lambda>bytes. decoded),
      marshalJSON = (\<lambda>v. [])\<rparr>"

text \<open>An item whose short name ends with a line feed.\<close>

definition lineFeedItem :: BSEItem where
  "lineFeedItem = \<lparr>ScripCode = ''500002'', ShortName = ''BETA'' @ [CHR 0x0A], ItemLongName = ''Beta Ltd'',
     MeetingDate = ''30 Oct 2026'', URL = []\<rparr>"

text \<open>The payload of the scenario: four declared periods, and one group with the
  revenue of the first two.\<close>

definition acmeRoot :: "float64 \<Rightarrow> float64 \<Rightarrow> jobject" where
  "acmeRoot v1 v2 =
     [(''body'', JObj
        [(''quarterlyOrder'', JArr [JStr ''Q1'', JStr ''Q2'', JStr ''Q3'', JStr ''Q4'']),
         (''quarterlyDataDump'', JObj
            [(''consolidated'', JObj
               [(''Q1'', JObj [(''TOTAL_SR_Q'', JNum v1)]),
                (''Q2'', JObj [(''TOTAL_SR_Q'', JNum v2)])])])])]"

text \<open>
  The unit of the last place of binary64 at a magnitude, and the rounding without the
  test for overflow.
\<close>

definition ulp :: "rat \<Rightarrow> rat" where
  "ulp q = 2 powi (max (ilog2 q) (- 1022) - 52)"

definition rnd :: "rat \<Rightarrow> rat" where
  "rnd q = of_int (rhe (q / ulp q)) * ulp q"

text \<open>
  The text of a number with up to two decimals: the hundredths \<open>n\<close> of its magnitude
  written with no decimals when \<open>n\<close> is a multiple of 100, with one when it is a
  multiple of 10, with two otherwise.
\<close>

definition fractionText :: "nat \<Rightarrow> string" where
  "fractionText n =
     (if n mod 100 = 0 then []
      else if n mod 10 = 0 then [digitChar (n div 10 mod 10)]
      else [digitChar (n div 10 mod 10), digitChar (n mod 10)])"

definition shortest2 :: "bool \<Rightarrow> nat \<Rightarrow> string" where
  "shortest2 s n =
     (if s then ''-'' else []) @ decimal (n div 100) @
     (if fractionText n = [] then [] else CHR ''.'' # fractionText n)"

text \<open>The characters that begin and end such a text, and a decimal point with the
  digits after it.\<close>

definition plainChar :: "char \<Rightarrow> bool" where
  "plainChar c = (isDigit c \<or> c = CHR ''-'')"

definition pointTail :: "string \<Rightarrow> string" where
  "pointTail fs = (if fs = [] then [] else CHR ''.'' # fs)"

section \<open>Properties of the choice of a group\<close>

lemma Contains_Nil [simp]: "Contains s []"
  by (cases s) simp_all

lemma targetHit_iff: "targetHit nmk ts = (\<exists>t \<in> set ts. t = nmk \<or> Contains nmk t \<or> Contains t nmk)"
  by (induction ts) auto

lemma scoreKeys_acc: "scoreKeys ts m s = s + int (length (filter (\<lambda>e. targetHit (normalize (fst e)) ts) m))"
  by (induction m arbitrary: s) auto


lemma chooseLoop_skip: "\<not> isObject v \<Longrightarrow> chooseLoop ts ((k, v) # rest) st = chooseLoop ts rest st"
  by (cases st; cases v) simp_all

lemma chooseLoop_obj:
  "chooseLoop ts ((k, JObj m) # rest) (bk, bs, bm) =
     (if scoreKeys ts m 0 > bs then chooseLoop ts rest (k, scoreKeys ts m 0, Some m)
      else chooseLoop ts rest (bk, bs, bm))"
  by simp

lemma below_Cons_obj: "below ts b ((k, JObj m) # qd) = (scoreKeys ts m 0 \<le> b \<and> below ts b qd)"
  unfolding below_def by auto

lemma below_Cons_skip: "\<not> isObject v \<Longrightarrow> below ts b ((k, v) # qd) = below ts b qd"
  unfolding below_def by auto

lemma sbelow_Cons_obj: "sbelow ts b ((k, JObj m) # qd) = (scoreKeys ts m 0 < b \<and> sbelow ts b qd)"
  unfolding sbelow_def by auto

lemma sbelow_Cons_skip: "\<not> isObject v \<Longrightarrow> sbelow ts b ((k, v) # qd) = sbelow ts b qd"
  unfolding sbelow_def by auto

lemma sbelow_Nil: "sbelow ts b []"
  unfolding sbelow_def by simp

lemma picked_here: "below ts (scoreKeys ts m 0) rest \<Longrightarrow> picked ts ((k, JObj m) # rest) k m"
  unfolding picked_def
  by (rule exI[of _ "[]"], rule exI[of _ rest]) (simp add: sbelow_Nil)

lemma picked_later:
  assumes "picked ts rest k m" and "sbelow ts (scoreKeys ts m 0) [e]"
  shows "picked ts (e # rest) k m"
proof -
  from assms(1) obtain pre post where p: "rest = pre @ (k, JObj m) # post"
    "sbelow ts (scoreKeys ts m 0) pre" "below ts (scoreKeys ts m 0) post"
    unfolding picked_def by blast
  have "e # rest = (e # pre) @ (k, JObj m) # post" using p(1) by simp
  moreover have "sbelow ts (scoreKeys ts m 0) (e # pre)"
    using p(2) assms(2) unfolding sbelow_def by auto
  ultimately show ?thesis unfolding picked_def using p(3) by blast
qed

lemma chooseLoop_char:
  "chooseLoop ts qd (bk, bs, bm) = (bk', bs', bm') \<Longrightarrow>
   (bk' = bk \<and> bs' = bs \<and> bm' = bm \<and> below ts bs qd)
   \<or> (\<exists>m. bm' = Some m \<and> bs' = scoreKeys ts m 0 \<and> bs < bs' \<and> picked ts qd bk' m)"
proof (induction qd arbitrary: bk bs bm)
  case Nil
  then show ?case by (simp add: below_def)
next
  case (Cons e qd)
  obtain k v where e: "e = (k, v)" by (cases e)
  show ?case
  proof (cases "isObject v")
    case True
    then obtain m where JObj: "v = JObj m" by (cases v) simp_all
    show ?thesis
    proof (cases "scoreKeys ts m 0 > bs")
      case True
      with Cons.prems e JObj have run: "chooseLoop ts qd (k, scoreKeys ts m 0, Some m) = (bk', bs', bm')"
        by simp
      from Cons.IH[OF run] show ?thesis
      proof (elim disjE conjE exE)
        assume a: "bk' = k" "bs' = scoreKeys ts m 0" "bm' = Some m" "below ts (scoreKeys ts m 0) qd"
        have "picked ts (e # qd) bk' m" using picked_here[OF a(4)] e JObj a(1) by simp
        with a True show ?thesis by simp
      next
        fix m0 assume b: "bm' = Some m0" "bs' = scoreKeys ts m0 0" "scoreKeys ts m 0 < bs'" "picked ts qd bk' m0"
        have "sbelow ts (scoreKeys ts m0 0) [e]" using b e JObj by (simp add: sbelow_Cons_obj sbelow_Nil)
        from picked_later[OF b(4) this] b True show ?thesis by simp
      qed
    next
      case False
      with Cons.prems e JObj have run: "chooseLoop ts qd (bk, bs, bm) = (bk', bs', bm')"
        by simp
      from Cons.IH[OF run] show ?thesis
      proof (elim disjE conjE exE)
        assume a: "bk' = bk" "bs' = bs" "bm' = bm" "below ts bs qd"
        with False e JObj show ?thesis by (simp add: below_Cons_obj)
      next
        fix m0 assume b: "bm' = Some m0" "bs' = scoreKeys ts m0 0" "bs < bs'" "picked ts qd bk' m0"
        have "sbelow ts (scoreKeys ts m0 0) [e]" using b e JObj False by (simp add: sbelow_Cons_obj sbelow_Nil)
        from picked_later[OF b(4) this] b show ?thesis by simp
      qed
    qed
  next
    case nobj: False
    have run: "chooseLoop ts qd (bk, bs, bm) = (bk', bs', bm')"
      using Cons.prems by (simp only: e chooseLoop_skip[OF nobj])
    from Cons.IH[OF run] show ?thesis
    proof (elim disjE conjE exE)
      assume a: "bk' = bk" "bs' = bs" "bm' = bm" "below ts bs qd"
      with nobj e show ?thesis by (simp add: below_Cons_skip)
    next
      fix m0 assume b: "bm' = Some m0" "bs' = scoreKeys ts m0 0" "bs < bs'" "picked ts qd bk' m0"
      have "sbelow ts (scoreKeys ts m0 0) [e]" using e nobj by (simp add: sbelow_Cons_skip sbelow_Nil)
      from picked_later[OF b(4) this] b show ?thesis by simp
    qed
  qed
qed

lemma chooseBestDump_cases:
  "(chooseBestDump qd qOrder = None \<and> below (map normalize qOrder) (- 1) qd)
   \<or> (\<exists>k m. chooseBestDump qd qOrder = Some m \<and> picked (map normalize qOrder) qd k m)"
proof -
  obtain bk' bs' bm' where run: "chooseLoop (map normalize qOrder) qd ([], - 1, None) = (bk', bs', bm')"
    by (cases "chooseLoop (map normalize qOrder) qd ([], - 1, None)") auto
  have res: "chooseBestDump qd qOrder = bm'"
    by (simp add: chooseBestDump_def run)
  from chooseLoop_char[OF run] show ?thesis
  proof (elim disjE conjE exE)
    assume "bm' = None" "below (map normalize qOrder) (- 1) qd"
    with res show ?thesis by simp
  next
    fix m assume "bm' = Some m" "picked (map normalize qOrder) qd bk' m"
    with res show ?thesis by blast
  qed
qed






lemma objectScore_eq:
  "objectScore qOrder m = int (length (filter (keyMatches qOrder) (map fst m)))"
proof -
  have "filter (\<lambda>e. targetHit (normalize (fst e)) (map normalize qOrder)) m
        = filter (\<lambda>e. keyMatches qOrder (fst e)) m"
    by (rule filter_cong) (auto simp: targetHit_iff keyMatches_def)
  then show ?thesis
    by (simp add: objectScore_def scoreKeys_acc length_filter_map comp_def flip: filter_map)
qed

text \<open>
  What the loops compute: the score of a candidate is the number of its keys that
  match at least one expected period, and the candidate returned is the first one, in
  the order of the visit, whose score no other candidate exceeds.
\<close>

lemma chooseBestDump_score_by_keys:
  "objectScore qOrder m = int (length (filter (keyMatches qOrder) (map fst m))) \<and>
   (\<forall>best. chooseBestDump qd qOrder = Some best \<longrightarrow>
      (\<exists>pre k post. qd = pre @ (k, JObj best) # post \<and>
         (\<forall>k1 m1. (k1, JObj m1) \<in> set pre \<longrightarrow> objectScore qOrder m1 < objectScore qOrder best) \<and>
         (\<forall>k2 m2. (k2, JObj m2) \<in> set post \<longrightarrow> objectScore qOrder m2 \<le> objectScore qOrder best)))"
proof (intro conjI allI impI)
  show "objectScore qOrder m = int (length (filter (keyMatches qOrder) (map fst m)))"
    by (rule objectScore_eq)
next
  fix best assume "chooseBestDump qd qOrder = Some best"
  with chooseBestDump_cases[of qd qOrder] obtain k where "picked (map normalize qOrder) qd k best"
    by auto
  then show "\<exists>pre k post. qd = pre @ (k, JObj best) # post \<and>
         (\<forall>k1 m1. (k1, JObj m1) \<in> set pre \<longrightarrow> objectScore qOrder m1 < objectScore qOrder best) \<and>
         (\<forall>k2 m2. (k2, JObj m2) \<in> set post \<longrightarrow> objectScore qOrder m2 \<le> objectScore qOrder best)"
    unfolding picked_def sbelow_def below_def objectScore_def by blast
qed

text \<open>
  Claim C3 at inputs where the code does not do what the claim, and the comment of the
  code ("score how many targets appear in m's keys"), say. The \<^verbatim>\<open>break\<close> keeps a key from
  counting for two periods, but nothing keeps a period from counting for two keys:
  with the keys \<^verbatim>\<open>Q1\<close> and \<^verbatim>\<open>Q1 FY24\<close> and the one expected period \<^verbatim>\<open>Q1\<close> the code
  scores 2, where one period has a match. So for the periods Q1 to Q4 a group that
  covers Q1 alone, under three keys, is chosen over a group that covers Q1 and Q2, in
  either order of the visit.
\<close>

theorem C3_score_counts_keys:
  "objectScore [''Q1''] [(''Q1'', JNull), (''Q1 FY24'', JNull)] = 2 \<and>
   specScore [''Q1''] [(''Q1'', JNull), (''Q1 FY24'', JNull)] = 1 \<and>
   specScore [''Q1'', ''Q2'', ''Q3'', ''Q4'']
     [(''Q1'', JObj []), (''Q1 FY24'', JObj []), (''Q1 old'', JObj [])] = 1 \<and>
   specScore [''Q1'', ''Q2'', ''Q3'', ''Q4''] [(''Q1'', JObj []), (''Q2'', JObj [])] = 2 \<and>
   chooseBestDump
     [(''standalone'', JObj [(''Q1'', JObj []), (''Q1 FY24'', JObj []), (''Q1 old'', JObj [])]),
      (''consolidated'', JObj [(''Q1'', JObj []), (''Q2'', JObj [])])]
     [''Q1'', ''Q2'', ''Q3'', ''Q4'']
     = Some [(''Q1'', JObj []), (''Q1 FY24'', JObj []), (''Q1 old'', JObj [])] \<and>
   chooseBestDump
     [(''consolidated'', JObj [(''Q1'', JObj []), (''Q2'', JObj [])]),
      (''standalone'', JObj [(''Q1'', JObj []), (''Q1 FY24'', JObj []), (''Q1 old'', JObj [])])]
     [''Q1'', ''Q2'', ''Q3'', ''Q4'']
     = Some [(''Q1'', JObj []), (''Q1 FY24'', JObj []), (''Q1 old'', JObj [])]"
  by code_simp

section \<open>Properties of the fuzzy match of a period\<close>

lemma findExact_mem: "findExact nq d = Some k \<Longrightarrow> k \<in> fst ` set d"
  by (induction d) (auto split: if_splits)

lemma findContain_mem: "findContain nq d = Some k \<Longrightarrow> k \<in> fst ` set d"
  by (induction d) (auto simp: Let_def split: if_splits)

lemma findContain_empty: "d \<noteq> [] \<Longrightarrow> findContain [] d = Some (fst (hd d))"
  by (cases d) auto

lemma findQuarterKey_empty_mem:
  assumes "normalize q = []" and "d \<noteq> []"
  shows "findQuarterKey d q \<in> fst ` set d"
proof (cases "findExact [] d")
  case None
  with assms findContain_empty[OF assms(2)] have "findQuarterKey d q = fst (hd d)"
    by (simp add: findQuarterKey_def)
  with assms(2) show ?thesis by (cases d) auto
next
  case (Some k)
  with assms have "findQuarterKey d q = k" by (simp add: findQuarterKey_def)
  with findExact_mem[OF Some] show ?thesis by simp
qed

lemma score_all_keys:
  assumes "normalize q = []" and "q \<in> set qOrder"
  shows "objectScore qOrder m = int (length m)"
proof -
  have "targetHit nmk (map normalize qOrder)" for nmk
    unfolding targetHit_iff using assms by force
  then show ?thesis by (simp add: objectScore_def scoreKeys_acc)
qed

text \<open>
  Claim C10, with the one case it misses: for a label that normalizes to the empty
  string and a group that is not empty, \<^verbatim>\<open>findQuarterKey\<close> returns a key of the group;
  the result is the empty string, which the caller reads as "no key", only when the
  empty string is itself a key of the group. With such a label among the expected
  periods every key of a candidate counts in its score.
\<close>

theorem C10_findQuarterKey_empty_label:
  "normalize q = [] \<Longrightarrow>
     (d \<noteq> [] \<longrightarrow> findQuarterKey d q \<in> fst ` set d \<and> ([] \<notin> fst ` set d \<longrightarrow> findQuarterKey d q \<noteq> []))
     \<and> (q \<in> set qOrder \<longrightarrow> objectScore qOrder m = int (length m))"
  using findQuarterKey_empty_mem[of q d] score_all_keys[of q qOrder m] by metis

theorem C10_findQuarterKey_empty_label_witness:
  "normalize ''--'' = [] \<and> findQuarterKey [(''Mar 2024'', JNull), (''Jun 2024'', JNull)] ''--'' \<in> {''Mar 2024'', ''Jun 2024''}
   \<and> objectScore [''Q1'', ''--''] [(''Mar 2024'', JNull), (''Jun 2024'', JNull)] = 2"
proof -
  have n: "normalize ''--'' = []" by code_simp
  from C10_findQuarterKey_empty_label[OF n, of "[(''Mar 2024'', JNull), (''Jun 2024'', JNull)]" "[''Q1'', ''--'']" "[(''Mar 2024'', JNull), (''Jun 2024'', JNull)]"] n
  show ?thesis by simp
qed

text \<open>The group has one key, the empty string: it is returned, and the caller takes it
  for "no key".\<close>

theorem C10_empty_key_counterexample:
  "normalize ''-'' = [] \<and> [([], JObj [])] \<noteq> [] \<and> findQuarterKey [([], JObj [])] ''-'' = []"
  by code_simp

section \<open>Properties of the fetch\<close>

text \<open>
  Claim C6, as the code has it: \<^verbatim>\<open>FetchFundamentalsJSON\<close> fails exactly when the request
  or the reading of the body fails, or the body is empty once trimmed; otherwise it
  returns the trimmed body, whether or not it begins with \<^verbatim>\<open>{\<close> or \<^verbatim>\<open>[\<close> (a body that
  does not is logged and returned).
\<close>

theorem C6_FetchFundamentalsJSON_fails_iff:
  "(\<exists>e. FetchFundamentalsJSON resp = Returns (Inl e)) =
     (resp = DoFailed \<or> resp = ReadFailed \<or> (\<exists>b. resp = Body b \<and> TrimSpace b = []))
   \<and> FetchFundamentalsJSON (Body b) =
       Returns (if TrimSpace b = [] then Inl EmptyResponse else Inr (TrimSpace b))"
  by (cases resp) (auto simp: FetchFundamentalsJSON_def Let_def)

text \<open>A body that begins with \<^verbatim>\<open><\<close> is returned, not refused.\<close>

theorem C6_html_body_counterexample:
  "\<not> startsWithJSONToken (TrimSpace ''<html>'') \<and>
   FetchFundamentalsJSON (Body ''<html>'') = Returns (Inr ''<html>'')"
  by code_simp

section \<open>Properties of the extraction of a value\<close>

lemma ParseFloat_Nil: "ParseFloat [] = None"
  by code_simp

lemma ParseFloat_notDeclared: "ParseFloat notDeclared = None"
  by code_simp

lemma valueFromMap_firstUsable:
  "valueFromMap mar m keys = (case firstUsable mar m keys of None \<Rightarrow> notDeclared | Some v \<Rightarrow> coerce mar v)"
proof (induction keys)
  case Nil
  show ?case by simp
next
  case (Cons k keys)
  show ?case
  proof (cases "map_of m k")
    case None
    with Cons show ?thesis by simp
  next
    case (Some v)
    with Cons show ?thesis
      by (cases v) (auto simp: ParseFloat_Nil Let_def split: option.splits)
  qed
qed

lemma digitChar_isDigit: "d < 10 \<Longrightarrow> isDigit (digitChar d)"
  by (simp add: isDigit_def digitChar_def)

lemma decimal_digits: "c \<in> set (decimal n) \<Longrightarrow> isDigit c"
proof (induction n rule: decimal.induct)
  case (1 n)
  show ?case
  proof (cases "n < 10")
    case True
    with "1.prems" show ?thesis by (simp add: decimal.simps[of n] digitChar_isDigit)
  next
    case False
    with "1.prems" have "c \<in> set (decimal (n div 10)) \<or> c = digitChar (n mod 10)"
      by (auto simp add: decimal.simps[of n])
    then show ?thesis using "1.IH"[OF False] by (auto simp: digitChar_isDigit)
  qed
qed

lemma decimal_nonempty: "decimal n \<noteq> []"
  by (subst decimal.simps) simp

lemma FormatFloat_f2_hd: "FormatFloat_f2 f \<noteq> [] \<and> hd (FormatFloat_f2 f) \<noteq> CHR ''n''"
proof (cases f)
  case NaN
  then show ?thesis by simp
next
  case (Inf64 s)
  then show ?thesis by simp
next
  case (Fin64 s q)
  define n where "n = nat (rhe (q * 100))"
  have "hd (decimal (n div 100)) \<in> set (decimal (n div 100))"
    using decimal_nonempty by simp
  then have "isDigit (hd (decimal (n div 100)))" by (rule decimal_digits)
  then have "hd (decimal (n div 100)) \<noteq> CHR ''n''" by (auto simp: isDigit_def)
  then show ?thesis using Fin64 decimal_nonempty[of "n div 100"]
    by (simp add: Let_def n_def hd_append)
qed

lemma TrimRight_prefix: "\<exists>t. s = TrimRight s cs @ t"
proof -
  have "rev (dropWhile (\<lambda>c. c \<in> set cs) (rev s)) @ rev (takeWhile (\<lambda>c. c \<in> set cs) (rev s)) = s"
    by (metis rev_append rev_rev_ident takeWhile_dropWhile_id)
  then show ?thesis unfolding TrimRight_def by metis
qed

lemma formatFloat_not_notDeclared: "formatFloat f \<noteq> notDeclared"
proof
  assume a: "formatFloat f = notDeclared"
  obtain t1 where t1: "FormatFloat_f2 f = TrimRight (FormatFloat_f2 f) ''0'' @ t1"
    using TrimRight_prefix by blast
  obtain t2 where t2: "TrimRight (FormatFloat_f2 f) ''0'' = formatFloat f @ t2"
    unfolding formatFloat_def using TrimRight_prefix by blast
  from t1 t2 a have "FormatFloat_f2 f = notDeclared @ t2 @ t1" by simp
  then have "hd (FormatFloat_f2 f) = CHR ''n''" by (simp add: notDeclared_def)
  with FormatFloat_f2_hd show False by blast
qed

lemma coerce_notDeclared:
  "usable mar v \<Longrightarrow> (coerce mar v = notDeclared) = (v = JStr notDeclared \<or> (isComposite v \<and> mar v = notDeclared))"
  by (cases v) (auto simp: formatFloat_not_notDeclared ParseFloat_notDeclared split: option.splits)

text \<open>
  Claim C5, with the one case it misses: \<^verbatim>\<open>valueFromMap\<close> returns the text of the first
  candidate key, in priority order, whose value is present, not null and not empty (an
  empty string is passed over), and \<^verbatim>\<open>not declared\<close> when there is none. It also
  returns \<^verbatim>\<open>not declared\<close> when that first usable value is the string \<^verbatim>\<open>not declared\<close>
  itself (or is serialized to it), which is returned as it is. The number of
  \<^verbatim>\<open>not declared\<close> is NaN.
\<close>

theorem C5_valueFromMap_priority:
  "valueFromMap mar m keys = (case firstUsable mar m keys of None \<Rightarrow> notDeclared | Some v \<Rightarrow> coerce mar v)
   \<and> (valueFromMap mar m keys = notDeclared) =
       (case firstUsable mar m keys of
          None \<Rightarrow> True
        | Some v \<Rightarrow> v = JStr notDeclared \<or> (isComposite v \<and> mar v = notDeclared))
   \<and> quarterValueToFloat64 notDeclared = NaN"
proof -
  have u: "firstUsable mar m keys = Some v \<Longrightarrow> usable mar v" for v
    by (induction keys) (auto split: option.splits if_splits)
  have "quarterValueToFloat64 notDeclared = NaN" by code_simp
  then show ?thesis
    using u by (auto simp: valueFromMap_firstUsable coerce_notDeclared split: option.splits)
qed

text \<open>The key maps to a string that is neither null nor empty, and the sentinel is
  returned.\<close>

theorem C5_sentinel_string_counterexample:
  "usable (\<lambda>v. []) (JStr ''not declared'') \<and>
   map_of [(''NP_Q'', JStr ''not declared'')] ''NP_Q'' = Some (JStr ''not declared'') \<and>
   valueFromMap (\<lambda>v. []) [(''NP_Q'', JStr ''not declared'')] [''NP_Q''] = ''not declared''"
  by code_simp

section \<open>Properties of the record of a company\<close>

lemma qv_notDeclared: "quarterValueToFloat64 notDeclared = NaN"
  by code_simp









section \<open>Properties of the figures of the report\<close>

lemma overflowBound_code [code]:
  "overflowBound = 179769313486231590772930519078902473361797697894230657273430081157732675805500963132708477322407536021120113879871393357658789768814416622492847430639474124377767893424865485276302219601246094119453082952085005768838150682342462881473913110540827237163350510684586298239947245938479716304835356329624224137216"
  by (simp add: overflowBound_def)


lemma n1: "normalize ''Q1'' = ''q1''" by code_simp
lemma n2: "normalize ''Q2'' = ''q2''" by code_simp
lemma n3: "normalize ''Q3'' = ''q3''" by code_simp
lemma n4: "normalize ''Q4'' = ''q4''" by code_simp

lemma acme_dump:
  "selectDump (asObject (map_of (acmeRoot v1 v2) ''body'')) [''Q1'', ''Q2'', ''Q3'', ''Q4'']
   = Some [(''Q1'', JObj [(''TOTAL_SR_Q'', JNum v1)]), (''Q2'', JObj [(''TOTAL_SR_Q'', JNum v2)])]"
  by (simp add: acmeRoot_def selectDump_def chooseBestDump_def n1 n2 n3 n4)

lemma acme_order:
  "quarterlyOrder (asObject (map_of (acmeRoot v1 v2) ''body'')) = [''Q1'', ''Q2'', ''Q3'', ''Q4'']"
  by (simp add: acmeRoot_def quarterlyOrder_def)

lemma qv1:
  "quarterValues mar (Some [(''Q1'', JObj [(''TOTAL_SR_Q'', JNum v1)]), (''Q2'', JObj [(''TOTAL_SR_Q'', JNum v2)])]) ''Q1''
   = (formatFloat v1, notDeclared)"
  by (simp add: quarterValues_def)

lemma qv2:
  "quarterValues mar (Some [(''Q1'', JObj [(''TOTAL_SR_Q'', JNum v1)]), (''Q2'', JObj [(''TOTAL_SR_Q'', JNum v2)])]) ''Q2''
   = (formatFloat v2, notDeclared)"
  by (simp add: quarterValues_def)

lemma qv3:
  "quarterValues mar (Some [(''Q1'', JObj [(''TOTAL_SR_Q'', JNum v1)]), (''Q2'', JObj [(''TOTAL_SR_Q'', JNum v2)])]) ''Q3''
   = (notDeclared, notDeclared)"
  by (simp add: quarterValues_def findQuarterKey_def n1 n2 n3 n4 Let_def)

lemma qv4:
  "quarterValues mar (Some [(''Q1'', JObj [(''TOTAL_SR_Q'', JNum v1)]), (''Q2'', JObj [(''TOTAL_SR_Q'', JNum v2)])]) ''Q4''
   = (notDeclared, notDeclared)"
  by (simp add: quarterValues_def findQuarterKey_def n1 n2 n3 n4 Let_def)

lemma acme_values:
  "map (quarterValues mar (Some [(''Q1'', JObj [(''TOTAL_SR_Q'', JNum v1)]), (''Q2'', JObj [(''TOTAL_SR_Q'', JNum v2)])]))
     [''Q1'', ''Q2'', ''Q3'', ''Q4'']
   = [(formatFloat v1, notDeclared), (formatFloat v2, notDeclared), (notDeclared, notDeclared), (notDeclared, notDeclared)]"
  by (simp only: list.map qv1 qv2 qv3 qv4)

lemma acme_result:
  "ParseCompanyFundamentals mar ''ACME'' (Inr (acmeRoot v1 v2)) =
     \<lparr>Company = ''ACME'', LongName = [], Quarters = [''Q1'', ''Q2'', ''Q3'', ''Q4''],
      Revenue = [formatFloat v1, formatFloat v2, notDeclared, notDeclared],
      NetProfit = [notDeclared, notDeclared, notDeclared, notDeclared],
      RevenueNums = [quarterValueToFloat64 (formatFloat v1), quarterValueToFloat64 (formatFloat v2), NaN, NaN],
      NetProfitNums = [NaN, NaN, NaN, NaN]\<rparr>"
  by (simp add: ParseCompanyFundamentals_def acme_order acme_dump qv1 qv2 qv3 qv4 padTo4_def qv_notDeclared Let_def)

lemma avgLoop_NaN: "avgLoop (NaN # vs) acc n = avgLoop vs acc n"
  by simp

lemma digitChar_eval:
  "digitChar 0 = CHR ''0''" "digitChar 1 = CHR ''1''" "digitChar 2 = CHR ''2''"
  "digitChar 3 = CHR ''3''" "digitChar 4 = CHR ''4''" "digitChar 5 = CHR ''5''"
  "digitChar 6 = CHR ''6''" "digitChar 7 = CHR ''7''" "digitChar 8 = CHR ''8''"
  "digitChar 9 = CHR ''9''" "digitChar (Suc 0) = CHR ''1''"
  by code_simp+

lemma formatFloat_110: "formatFloat (Fin64 False 110) = ''110''"
  by (simp add: formatFloat_def rhe_def decimal.simps digitChar_eval TrimRight_def)

lemma formatFloat_100: "formatFloat (Fin64 False 100) = ''100''"
  by (simp add: formatFloat_def rhe_def decimal.simps digitChar_eval TrimRight_def)

lemma round64_110: "round64 110 = Some 110" by code_simp
lemma round64_100: "round64 100 = Some 100" by code_simp

lemma ParseFloat_110: "ParseFloat ''110'' = Some (Fin64 False 110)"
  by (simp add: ParseFloat_def special_def readFloat_def readExponent_def finishFloat_def mantissaValue_def
      isHexPrefix_def isDigit_def digitVal_def Let_def round64_110 lowerByte_def isUpper_def)

lemma ParseFloat_100: "ParseFloat ''100'' = Some (Fin64 False 100)"
  by (simp add: ParseFloat_def special_def readFloat_def readExponent_def finishFloat_def mantissaValue_def
      isHexPrefix_def isDigit_def digitVal_def Let_def round64_100 lowerByte_def isUpper_def)

lemma qv_110: "quarterValueToFloat64 ''110'' = Fin64 False 110"
  by (simp add: quarterValueToFloat64_def TrimSpace_def asciiSpace_def space2_def space3_def
      EqualFoldLower_def lowerByte_def isUpper_def ParseFloat_110 Let_def)

lemma qv_100: "quarterValueToFloat64 ''100'' = Fin64 False 100"
  by (simp add: quarterValueToFloat64_def TrimSpace_def asciiSpace_def space2_def space3_def
      EqualFoldLower_def lowerByte_def isUpper_def ParseFloat_100 Let_def)

lemma avg3_110_100: "avg3Change [Fin64 False 110, Fin64 False 100, NaN, NaN] = Fin64 False 5"
  by code_simp

lemma latest_110_100: "latestChange [Fin64 False 110, Fin64 False 100, NaN, NaN] = Fin64 False 10"
  by code_simp

text \<open>
  Claim C4, as the code has it. For the payload that declares the periods Q1 to Q4 and
  whose selected group holds the revenue \<open>v1\<close> of Q1 and \<open>v2\<close> of Q2 only, the record has
  the four declared names as periods (a name is appended for every declared period,
  with or without data), the revenue \<^verbatim>\<open>[v1, v2, not declared, not declared]\<close>, and a latest
  change computed from the two values. The change of the average of three is computed
  too: \<^verbatim>\<open>avgFloats\<close> leaves NaN out, so the mean of \<open>v1\<close> and \<open>v2\<close> is compared with
  \<open>v2\<close>.
\<close>

theorem C4_two_periods_of_four:
  "Quarters (ParseCompanyFundamentals mar ''ACME'' (Inr (acmeRoot v1 v2))) = [''Q1'', ''Q2'', ''Q3'', ''Q4'']
   \<and> Revenue (ParseCompanyFundamentals mar ''ACME'' (Inr (acmeRoot v1 v2)))
       = [formatFloat v1, formatFloat v2, ''not declared'', ''not declared'']
   \<and> revPctNum (rowStatsOf (ParseCompanyFundamentals mar ''ACME'' (Inr (acmeRoot v1 v2))))
       = pctOrNaN (quarterValueToFloat64 (formatFloat v1)) (quarterValueToFloat64 (formatFloat v2))
   \<and> avg3RevPctNum (rowStatsOf (ParseCompanyFundamentals mar ''ACME'' (Inr (acmeRoot v1 v2))))
       = pctOrNaN (avgFloats [quarterValueToFloat64 (formatFloat v1), quarterValueToFloat64 (formatFloat v2)])
                  (avgFloats [quarterValueToFloat64 (formatFloat v2)])"
  by (simp add: acme_result rowStatsOf_def latestChange_def avg3Change_def avgFloats_def notDeclared_def Let_def)

text \<open>With 110 and 100 the periods are the four names and the change of the average of
  three is 5, not NaN.\<close>

theorem C4_average_counterexample:
  "Quarters (ParseCompanyFundamentals (\<lambda>v. []) ''ACME'' (Inr (acmeRoot (Fin64 False 110) (Fin64 False 100))))
     = [''Q1'', ''Q2'', ''Q3'', ''Q4'']
   \<and> Revenue (ParseCompanyFundamentals (\<lambda>v. []) ''ACME'' (Inr (acmeRoot (Fin64 False 110) (Fin64 False 100))))
     = [''110'', ''100'', ''not declared'', ''not declared'']
   \<and> avg3RevPctNum (rowStatsOf (ParseCompanyFundamentals (\<lambda>v. []) ''ACME'' (Inr (acmeRoot (Fin64 False 110) (Fin64 False 100)))))
     = Fin64 False 5"
  by (simp add: acme_result rowStatsOf_def formatFloat_110 formatFloat_100 qv_110 qv_100 avg3_110_100 notDeclared_def)

section \<open>Properties of the rounding to binary64\<close>

lemma round64_rnd:
  "round64 q = (if q = 0 then Some 0 else if rnd q < overflowBound then Some (rnd q) else None)"
  by (simp add: round64_def rnd_def ulp_def Let_def)

lemma rhe_cases:
  "rhe x = \<lfloor>x\<rfloor> \<or> rhe x = \<lfloor>x\<rfloor> + 1"
  by (simp add: rhe_def Let_def)

lemma rhe_split:
  "(rhe x = \<lfloor>x\<rfloor> \<and> x - of_int \<lfloor>x\<rfloor> \<le> 1 / 2) \<or> (rhe x = \<lfloor>x\<rfloor> + 1 \<and> 1 / 2 \<le> x - of_int \<lfloor>x\<rfloor>)"
proof -
  define n where "n = \<lfloor>x\<rfloor>"
  define f where "f = x - of_int n"
  have "rhe x = (if f < 1 / 2 then n else if 1 / 2 < f then n + 1 else if even n then n else n + 1)"
    by (simp add: rhe_def Let_def n_def f_def)
  then have "(rhe x = n \<and> f \<le> 1 / 2) \<or> (rhe x = n + 1 \<and> 1 / 2 \<le> f)"
    by (auto split: if_splits)
  then show ?thesis by (simp add: n_def f_def)
qed

lemma rhe_half: "\<bar>of_int (rhe x) - x\<bar> \<le> 1 / 2"
proof -
  have a: "of_int \<lfloor>x\<rfloor> \<le> x" and b: "x < of_int \<lfloor>x\<rfloor> + 1" by linarith+
  from rhe_split[of x] show ?thesis
  proof
    assume "rhe x = \<lfloor>x\<rfloor> \<and> x - of_int \<lfloor>x\<rfloor> \<le> 1 / 2"
    then show ?thesis using a by simp
  next
    assume "rhe x = \<lfloor>x\<rfloor> + 1 \<and> 1 / 2 \<le> x - of_int \<lfloor>x\<rfloor>"
    then show ?thesis using b by simp
  qed
qed

lemma rhe_nearest: "\<bar>of_int (rhe x) - x\<bar> \<le> \<bar>of_int k - x\<bar>"
proof -
  have a: "of_int \<lfloor>x\<rfloor> \<le> x" and b: "x < of_int \<lfloor>x\<rfloor> + 1" by linarith+
  have lo: "\<bar>of_int (rhe x) - x\<bar> \<le> x - of_int \<lfloor>x\<rfloor>"
    using rhe_split[of x] a b by auto
  have hi: "\<bar>of_int (rhe x) - x\<bar> \<le> of_int \<lfloor>x\<rfloor> + 1 - x"
    using rhe_split[of x] a b by auto
  consider "k \<le> \<lfloor>x\<rfloor>" | "k \<ge> \<lfloor>x\<rfloor> + 1" by linarith
  then show ?thesis
  proof cases
    case 1
    then have "(of_int k :: rat) \<le> of_int \<lfloor>x\<rfloor>" by (simp only: of_int_le_iff)
    then show ?thesis using lo by linarith
  next
    case 2
    then have "(of_int k :: rat) \<ge> of_int (\<lfloor>x\<rfloor> + 1)" by (simp only: of_int_le_iff)
    then have "(of_int k :: rat) \<ge> of_int \<lfloor>x\<rfloor> + 1" by simp
    then show ?thesis using hi by linarith
  qed
qed

lemma rhe_of_int [simp]: "rhe (of_int k) = k"
  by (simp add: rhe_def)

lemma rhe_nonneg: "0 \<le> x \<Longrightarrow> 0 \<le> rhe x"
proof -
  assume "0 \<le> x"
  then have "0 \<le> \<lfloor>x\<rfloor>" by simp
  then show ?thesis using rhe_cases[of x] by auto
qed

lemma ilog2_bounds:
  assumes "0 < q"
  shows "2 powi (ilog2 q) \<le> q" and "q < 2 powi (ilog2 q + 1)"
proof -
  obtain a b where ab: "quotient_of q = (a, b)" by (cases "quotient_of q")
  have bpos: "0 < b" using quotient_of_denom_pos[OF ab] .
  have q: "q = of_int a / of_int b" using quotient_of_div[OF ab] .
  have apos: "0 < a" using assms bpos q by (simp add: zero_less_divide_iff)
  define la where "la = bitlen a"
  define lb where "lb = bitlen b"
  have la1: "1 \<le> la"
  proof (rule ccontr)
    assume "\<not> 1 \<le> la"
    then have "nat (bitlen a) = 0" by (simp add: la_def)
    with bitlen_bounds[OF apos] apos show False by simp
  qed
  have lb1: "1 \<le> lb"
  proof (rule ccontr)
    assume "\<not> 1 \<le> lb"
    then have "nat (bitlen b) = 0" by (simp add: lb_def)
    with bitlen_bounds[OF bpos] bpos show False by simp
  qed
  have alo: "(2::rat) powi (la - 1) \<le> of_int a" and ahi: "of_int a < (2::rat) powi la"
  proof -
    from bitlen_bounds[OF apos] have "2 ^ nat (la - 1) \<le> a" "a < 2 ^ nat la" by (simp_all add: la_def)
    then have "(of_int (2 ^ nat (la - 1)) :: rat) \<le> of_int a" "(of_int a :: rat) < of_int (2 ^ nat la)"
      by (simp_all only: of_int_le_iff of_int_less_iff)
    then show "(2::rat) powi (la - 1) \<le> of_int a" "of_int a < (2::rat) powi la"
      using la1 by (simp_all add: power_int_def)
  qed
  have blo: "(2::rat) powi (lb - 1) \<le> of_int b" and bhi: "of_int b < (2::rat) powi lb"
  proof -
    from bitlen_bounds[OF bpos] have "2 ^ nat (lb - 1) \<le> b" "b < 2 ^ nat lb" by (simp_all add: lb_def)
    then have "(of_int (2 ^ nat (lb - 1)) :: rat) \<le> of_int b" "(of_int b :: rat) < of_int (2 ^ nat lb)"
      by (simp_all only: of_int_le_iff of_int_less_iff)
    then show "(2::rat) powi (lb - 1) \<le> of_int b" "of_int b < (2::rat) powi lb"
      using lb1 by (simp_all add: power_int_def)
  qed
  define k where "k = la - lb"
  have bq: "(of_int b :: rat) > 0" using bpos by simp
  have lo: "2 powi (k - 1) \<le> q"
  proof -
    have "(2::rat) powi (k - 1) * of_int b \<le> 2 powi (k - 1) * 2 powi lb"
      using bhi by (intro mult_left_mono) auto
    also have "\<dots> = 2 powi (la - 1)" by (simp add: k_def flip: power_int_add)
    also have "\<dots> \<le> of_int a" by (rule alo)
    finally show ?thesis using bq by (simp add: q pos_le_divide_eq)
  qed
  have hi: "q < 2 powi (k + 1)"
  proof -
    have "(of_int a :: rat) < 2 powi la" by (rule ahi)
    also have "\<dots> = 2 powi (k + 1) * 2 powi (lb - 1)" by (simp add: k_def flip: power_int_add)
    also have "\<dots> \<le> 2 powi (k + 1) * of_int b"
      using blo by (intro mult_left_mono) auto
    finally show ?thesis using bq by (simp add: q pos_divide_less_eq)
  qed
  have il: "ilog2 q = (if 2 powi k \<le> q then k else k - 1)"
    by (simp add: ilog2_def ab k_def la_def lb_def Let_def)
  show "2 powi (ilog2 q) \<le> q" using il lo by auto
  show "q < 2 powi (ilog2 q + 1)" using il hi by (auto simp: not_le)
qed


lemma ulp_pos: "0 < ulp q"
  by (simp add: ulp_def zero_less_power_int)

lemma abs_scale:
  assumes "0 < (u::rat)"
  shows "\<bar>a * u - v\<bar> = \<bar>a - v / u\<bar> * u"
proof -
  have "(a - v / u) * u = a * u - v" using assms by (simp add: field_simps)
  then have "\<bar>a * u - v\<bar> = \<bar>(a - v / u) * u\<bar>" by simp
  also have "\<dots> = \<bar>a - v / u\<bar> * \<bar>u\<bar>" by (rule abs_mult)
  finally show ?thesis using assms by simp
qed

lemma rnd_grid_nearest: "\<bar>rnd v - v\<bar> \<le> \<bar>of_int k * ulp v - v\<bar>"
proof -
  have u: "0 < ulp v" by (rule ulp_pos)
  have "\<bar>rnd v - v\<bar> = \<bar>of_int (rhe (v / ulp v)) - v / ulp v\<bar> * ulp v"
    unfolding rnd_def by (rule abs_scale[OF u])
  also have "\<dots> \<le> \<bar>of_int k - v / ulp v\<bar> * ulp v"
    using u rhe_nearest[of "v / ulp v" k] by (intro mult_right_mono) auto
  also have "\<dots> = \<bar>of_int k * ulp v - v\<bar>"
    by (rule abs_scale[OF u, symmetric])
  finally show ?thesis .
qed

lemma pow2_step:
  assumes le: "E2 \<le> E1"
  shows "(2::rat) powi (E1 - 52) = of_int (2 ^ nat (E1 - E2)) * 2 powi (E2 - 52)"
proof -
  define n where "n = nat (E1 - E2)"
  have e: "E1 - 52 = int n + (E2 - 52)" using le by (simp add: n_def)
  have "(2::rat) powi (int n + (E2 - 52)) = 2 powi int n * 2 powi (E2 - 52)"
    by (rule power_int_add) simp
  also have "(2::rat) powi int n = 2 ^ n" by (rule power_int_of_nat)
  finally show ?thesis unfolding e n_def by simp
qed

lemma valid_rnd: "round64 q = Some q \<Longrightarrow> q \<noteq> 0 \<Longrightarrow> rnd q = q \<and> q < overflowBound"
  by (auto simp: round64_rnd split: if_splits)

lemma valid_grid:
  assumes v: "round64 q = Some q" and q: "0 < q" and vp: "0 < v"
  shows "(\<exists>k. q = of_int k * ulp v) \<or>
         (q < 2 powi (ilog2 v) \<and> (\<exists>k. 2 powi (ilog2 v) = of_int k * ulp v))"
proof -
  define m where "m = rhe (q / ulp q)"
  have qm: "q = of_int m * ulp q" using valid_rnd[OF v] q by (simp add: rnd_def m_def)
  show ?thesis
  proof (cases "max (ilog2 v) (- 1022) \<le> max (ilog2 q) (- 1022)")
    case True
    from pow2_step[OF True]
    have "ulp q = of_int (2 ^ nat (max (ilog2 q) (- 1022) - max (ilog2 v) (- 1022))) * ulp v"
      by (simp add: ulp_def)
    with qm have "q = of_int (m * 2 ^ nat (max (ilog2 q) (- 1022) - max (ilog2 v) (- 1022))) * ulp v"
      by simp
    then show ?thesis by blast
  next
    case False
    then have ev: "max (ilog2 v) (- 1022) = ilog2 v" and lt: "ilog2 q + 1 \<le> ilog2 v" by auto
    have "q < 2 powi (ilog2 q + 1)" using ilog2_bounds(2)[OF q] .
    also have "\<dots> \<le> 2 powi (ilog2 v)" using lt by (intro power_int_increasing) auto
    finally have a: "q < 2 powi (ilog2 v)" .
    have "(2::rat) powi (ilog2 v) = 2 powi (52 + (ilog2 v - 52))" by simp
    also have "\<dots> = 2 powi 52 * 2 powi (ilog2 v - 52)" by (rule power_int_add) simp
    finally have "(2::rat) powi (ilog2 v) = of_int (2 ^ 52) * ulp v"
      by (simp add: ulp_def ev)
    with a show ?thesis by blast
  qed
qed

lemma nearest_valid:
  assumes v: "round64 q = Some q" and q: "0 \<le> q" and vp: "0 < v"
  shows "\<bar>rnd v - v\<bar> \<le> \<bar>q - v\<bar>"
proof (cases "q = 0")
  case True
  with rnd_grid_nearest[of v 0] show ?thesis by simp
next
  case False
  with q have qp: "0 < q" by simp
  from valid_grid[OF v qp vp] show ?thesis
  proof (elim disjE conjE exE)
    fix k assume "q = of_int k * ulp v"
    with rnd_grid_nearest[of v k] show ?thesis by simp
  next
    fix k assume a: "q < 2 powi (ilog2 v)" and b: "2 powi (ilog2 v) = of_int k * ulp v"
    have "\<bar>rnd v - v\<bar> \<le> \<bar>2 powi (ilog2 v) - v\<bar>" using rnd_grid_nearest[of v k] b by simp
    also have "\<dots> = v - 2 powi (ilog2 v)" using ilog2_bounds(1)[OF vp] by simp
    also have "\<dots> \<le> \<bar>q - v\<bar>" using a by linarith
    finally show ?thesis .
  qed
qed


lemma pow2_ge_one: "0 \<le> k \<Longrightarrow> 1 \<le> (2::rat) powi k"
  using power_int_increasing[of 0 k "2::rat"] by simp

lemma pow2_less_exp: "(2::rat) powi a < 2 powi b \<Longrightarrow> a < b"
proof (rule ccontr)
  assume l: "(2::rat) powi a < 2 powi b" and "\<not> a < b"
  then have "b \<le> a" by simp
  then have "(2::rat) powi b \<le> 2 powi a" by (intro power_int_increasing) auto
  with l show False by simp
qed

lemma valid_headroom:
  assumes v: "round64 q = Some q" and q: "0 \<le> q"
  shows "q + 1 / 100 < overflowBound"
proof -
  define B where "B = (2::rat) powi 1023"
  have B1: "1 \<le> B" unfolding B_def by (rule pow2_ge_one) simp
  have "(2::rat) powi (1023 + 1) = 2 powi 1023 * 2 powi 1" by (rule power_int_add) simp
  then have ob: "overflowBound = 2 * B" by (simp add: overflowBound_def B_def)
  show ?thesis
  proof (cases "q \<le> B")
    case True
    then show ?thesis using B1 ob by simp
  next
    case False
    then have gt: "B < q" by simp
    then have q0: "q \<noteq> 0" and qp: "0 < q" using B1 by auto
    have qr: "rnd q = q" and qb: "q < overflowBound" using valid_rnd[OF v q0] by auto
    have "(2::rat) powi 1023 < 2 powi (ilog2 q + 1)"
      using gt ilog2_bounds(2)[OF qp] by (simp add: B_def)
    then have lo: "1023 < ilog2 q + 1" by (rule pow2_less_exp)
    have "(2::rat) powi (ilog2 q) < 2 powi 1024"
      using qb ilog2_bounds(1)[OF qp] by (simp add: overflowBound_def)
    then have hi: "ilog2 q < 1024" by (rule pow2_less_exp)
    from lo hi have e: "ilog2 q = 1023" by simp
    define u where "u = (2::rat) powi 971"
    have up: "0 < u" and u1: "1 \<le> u" unfolding u_def by (simp_all add: pow2_ge_one)
    have uq: "ulp q = u" by (simp add: ulp_def e u_def)
    define m where "m = rhe (q / ulp q)"
    have qm: "q = of_int m * u" using qr by (simp add: rnd_def m_def uq)
    have "(2::rat) powi (53 + 971) = 2 powi 53 * 2 powi 971" by (rule power_int_add) simp
    then have obu: "overflowBound = of_int (2 ^ 53) * u" by (simp add: overflowBound_def u_def)
    have "of_int m * u < of_int (2 ^ 53) * u" using qb qm obu by simp
    then have "(of_int m :: rat) < of_int (2 ^ 53)" using up by (simp only: mult_less_cancel_right_pos)
    then have "m < 2 ^ 53" by (simp only: of_int_less_iff)
    then have "m \<le> 2 ^ 53 - 1" by simp
    then have "(of_int m :: rat) \<le> of_int (2 ^ 53 - 1)" by (simp only: of_int_le_iff)
    then have "of_int m * u \<le> of_int (2 ^ 53 - 1) * u" using up by (simp only: mult_le_cancel_right_pos)
    also have "\<dots> = overflowBound - u" by (simp add: obu left_diff_distrib)
    finally have "q \<le> overflowBound - u" using qm by simp
    then show ?thesis using u1 by simp
  qed
qed

lemma rnd_nonneg: "0 \<le> v \<Longrightarrow> 0 \<le> rnd v"
  unfolding rnd_def using ulp_pos[of v] rhe_nonneg[of "v / ulp v"]
  by (intro mult_nonneg_nonneg) auto

lemma round64_near:
  assumes v: "round64 q = Some q" and q: "0 \<le> q" and vp: "0 \<le> v" and close: "\<bar>v - q\<bar> \<le> 1 / 200"
  shows "\<exists>r. round64 v = Some r \<and> 0 \<le> r \<and> \<bar>r - v\<bar> \<le> \<bar>q - v\<bar>"
proof (cases "v = 0")
  case True
  then show ?thesis by (simp add: round64_def)
next
  case False
  with vp have vpos: "0 < v" by simp
  have n: "\<bar>rnd v - v\<bar> \<le> \<bar>q - v\<bar>" by (rule nearest_valid[OF v q vpos])
  have "rnd v \<le> q + 1 / 100" using n close by linarith
  also have "\<dots> < overflowBound" by (rule valid_headroom[OF v q])
  finally have "round64 v = Some (rnd v)" using False by (simp add: round64_rnd)
  with n rnd_nonneg[OF vp] show ?thesis by simp
qed

section \<open>Properties of the text of a number\<close>

lemma of_char_digitChar: "d < 10 \<Longrightarrow> (of_char (digitChar d) :: nat) = 48 + d"
  by (simp add: digitChar_def)

lemma digitChar_zero_iff: "d < 10 \<Longrightarrow> (digitChar d = CHR ''0'') = (d = 0)"
proof
  assume d: "d < 10" and "digitChar d = CHR ''0''"
  then have "(of_char (digitChar d) :: nat) = of_char (CHR ''0'')" by simp
  with d show "d = 0" by (simp add: of_char_digitChar)
next
  assume "d = 0" then show "digitChar d = CHR ''0''" by (simp add: digitChar_eval)
qed

lemma isDigit_not_dot: "isDigit c \<Longrightarrow> c \<noteq> CHR ''.''"
  by (auto simp: isDigit_def)

lemma dropWhile_rev_keep: "xs \<noteq> [] \<Longrightarrow> \<not> P (last xs) \<Longrightarrow> dropWhile P (rev xs) = rev xs"
  by (cases xs rule: rev_cases) auto

lemma TrimRight_keep: "xs \<noteq> [] \<Longrightarrow> last xs \<notin> set cs \<Longrightarrow> TrimRight xs cs = xs"
  by (simp add: TrimRight_def dropWhile_rev_keep)

lemma TrimRight_snoc_drop: "c \<in> set cs \<Longrightarrow> TrimRight (xs @ [c]) cs = TrimRight xs cs"
  by (simp add: TrimRight_def)

lemma last_decimal_digit: "isDigit (last (decimal n))"
  using decimal_digits[of "last (decimal n)" n] decimal_nonempty[of n] by simp

lemma formatFloat_Fin: "formatFloat (Fin64 s q) = shortest2 s (nat (rhe (q * 100)))"
proof -
  define n where "n = nat (rhe (q * 100))"
  define pre where "pre = (if s then ''-'' else []) @ decimal (n div 100)"
  define d1 where "d1 = digitChar (n div 10 mod 10)"
  define d2 where "d2 = digitChar (n mod 10)"
  have X: "FormatFloat_f2 (Fin64 s q) = ((pre @ ''.'') @ [d1]) @ [d2]"
    by (simp add: Let_def n_def pre_def d1_def d2_def)
  have pre_ne: "pre \<noteq> []" and pre_last: "isDigit (last pre)"
    using decimal_nonempty[of "n div 100"] last_decimal_digit[of "n div 100"]
    by (simp_all add: pre_def)
  have d1d: "isDigit d1" and d2d: "isDigit d2"
    by (simp_all add: d1_def d2_def digitChar_isDigit)
  have z1: "(d1 = CHR ''0'') = (n div 10 mod 10 = 0)"
    unfolding d1_def by (rule digitChar_zero_iff) simp
  have z2: "(d2 = CHR ''0'') = (n mod 10 = 0)"
    unfolding d2_def by (rule digitChar_zero_iff) simp
  have m100: "(n mod 100 = 0) = (n mod 10 = 0 \<and> n div 10 mod 10 = 0)" by presburger
  consider (full) "n mod 10 \<noteq> 0" | (one) "n mod 10 = 0" "n div 10 mod 10 \<noteq> 0"
    | (none) "n mod 10 = 0" "n div 10 mod 10 = 0" by blast
  then have "formatFloat (Fin64 s q) = pre @ (if fractionText n = [] then [] else CHR ''.'' # fractionText n)"
  proof cases
    case full
    then have "TrimRight (FormatFloat_f2 (Fin64 s q)) ''0'' = ((pre @ ''.'') @ [d1]) @ [d2]"
      unfolding X using z2 by (intro TrimRight_keep) auto
    moreover have "TrimRight (((pre @ ''.'') @ [d1]) @ [d2]) ''.'' = ((pre @ ''.'') @ [d1]) @ [d2]"
      using isDigit_not_dot[OF d2d] by (intro TrimRight_keep) auto
    ultimately show ?thesis using full m100
      by (simp add: formatFloat_def fractionText_def d1_def d2_def)
  next
    case one
    then have "TrimRight (FormatFloat_f2 (Fin64 s q)) ''0'' = TrimRight ((pre @ ''.'') @ [d1]) ''0''"
      unfolding X using z2 by (intro TrimRight_snoc_drop) auto
    also have "\<dots> = (pre @ ''.'') @ [d1]"
      using one z1 by (intro TrimRight_keep) auto
    finally have a: "TrimRight (FormatFloat_f2 (Fin64 s q)) ''0'' = (pre @ ''.'') @ [d1]" .
    have "TrimRight ((pre @ ''.'') @ [d1]) ''.'' = (pre @ ''.'') @ [d1]"
      using isDigit_not_dot[OF d1d] by (intro TrimRight_keep) auto
    with a show ?thesis using one m100
      by (simp add: formatFloat_def fractionText_def d1_def)
  next
    case none
    then have "TrimRight (FormatFloat_f2 (Fin64 s q)) ''0'' = TrimRight ((pre @ ''.'') @ [d1]) ''0''"
      unfolding X using z2 by (intro TrimRight_snoc_drop) auto
    also have "\<dots> = TrimRight (pre @ ''.'') ''0''"
      using none z1 by (intro TrimRight_snoc_drop) auto
    also have "\<dots> = pre @ ''.''"
      by (intro TrimRight_keep) auto
    finally have a: "TrimRight (FormatFloat_f2 (Fin64 s q)) ''0'' = pre @ ''.''" .
    have "TrimRight (pre @ ''.'') ''.'' = TrimRight pre ''.''"
      by (intro TrimRight_snoc_drop) auto
    also have "\<dots> = pre"
      using pre_ne isDigit_not_dot[OF pre_last] by (intro TrimRight_keep) auto
    finally show ?thesis using a none m100
      by (simp add: formatFloat_def fractionText_def)
  qed
  then show ?thesis by (simp add: shortest2_def pre_def n_def)
qed

lemma plain_facts:
  assumes "plainChar a"
  shows "\<not> asciiSpace a" "\<not> space2 a b" "\<not> space3 a b c" "\<not> space2 b a" "\<not> space3 c b a"
  using assms
  by (auto simp: plainChar_def isDigit_def asciiSpace_def space2_def space3_def Let_def)

lemma TrimLeftSpace_plain: "plainChar a \<Longrightarrow> TrimLeftSpace (a # rest) = a # rest"
proof -
  assume p: "plainChar a"
  show ?thesis
  proof (cases rest)
    case Nil
    then show ?thesis using plain_facts[OF p] by simp
  next
    case (Cons b r1)
    show ?thesis
    proof (cases r1)
      case Nil
      then show ?thesis using Cons plain_facts[OF p] by simp
    next
      case (Cons c r2)
      then show ?thesis using \<open>rest = b # r1\<close> plain_facts[OF p] by simp
    qed
  qed
qed

lemma TrimRevSpace_plain: "plainChar c \<Longrightarrow> TrimRevSpace (c # rest) = c # rest"
proof -
  assume p: "plainChar c"
  show ?thesis
  proof (cases rest)
    case Nil
    then show ?thesis using plain_facts[OF p] by simp
  next
    case (Cons b r1)
    show ?thesis
    proof (cases r1)
      case Nil
      then show ?thesis using Cons plain_facts[OF p] by simp
    next
      case (Cons a r2)
      then show ?thesis using \<open>rest = b # r1\<close> plain_facts[OF p] by simp
    qed
  qed
qed

lemma TrimSpace_plain:
  assumes "s \<noteq> []" "plainChar (hd s)" "plainChar (last s)"
  shows "TrimSpace s = s"
proof -
  obtain a r where s: "s = a # r" using assms(1) by (cases s) auto
  have l: "TrimLeftSpace s = s" using assms(2) s TrimLeftSpace_plain by simp
  from assms(1) obtain ys y where s2: "s = ys @ [y]" by (cases s rule: rev_cases) auto
  then have rs: "rev s = y # rev ys" and y: "last s = y" by simp_all
  have "TrimRevSpace (rev s) = rev s" unfolding rs using assms(3) y by (intro TrimRevSpace_plain) simp
  with l show ?thesis by (simp add: TrimSpace_def)
qed

lemma digitVal_digitChar: "d < 10 \<Longrightarrow> digitVal (digitChar d) = d"
  by (simp add: digitVal_def of_char_digitChar)

lemma readDigits_run:
  "\<forall>c \<in> set ds. isDigit c \<Longrightarrow>
   readDigits False (ds @ rest)
     \<lparr>digitsVal = D, fracDigits = F, sawdot = dot, sawdigits = dg, underscores = us, used = u\<rparr>
   = readDigits False rest
     \<lparr>digitsVal = foldl (\<lambda>a c. a * 10 + digitVal c) D ds,
      fracDigits = (if dot then F + length ds else F), sawdot = dot,
      sawdigits = (dg \<or> ds \<noteq> []), underscores = us, used = u + length ds\<rparr>"
proof (induction ds arbitrary: D F dg u)
  case Nil
  then show ?case by simp
next
  case (Cons c ds)
  then have c: "isDigit c" and rest: "\<forall>c \<in> set ds. isDigit c" by simp_all
  from c have n1: "c \<noteq> CHR ''_''" and n2: "c \<noteq> CHR ''.''" by (auto simp: isDigit_def)
  show ?case using c n1 n2 Cons.IH[OF rest] by simp
qed

lemma foldl_decimal:
  "foldl (\<lambda>a c. a * 10 + digitVal c) D (decimal n) = D * 10 ^ length (decimal n) + n"
proof (induction n arbitrary: D rule: decimal.induct)
  case (1 n)
  show ?case
  proof (cases "n < 10")
    case True
    then show ?thesis by (simp add: decimal.simps[of n] digitVal_digitChar)
  next
    case False
    then have d: "decimal n = decimal (n div 10) @ [digitChar (n mod 10)]"
      by (simp add: decimal.simps[of n])
    show ?thesis using "1.IH"[OF False, of D]
      by (simp add: d digitVal_digitChar algebra_simps)
  qed
qed

lemma hex_false:
  "\<forall>c \<in> set s1. isDigit c \<or> c = CHR ''.'' \<Longrightarrow> isHexPrefix s1 = False"
  by (auto split: list.splits simp: isHexPrefix_def lowerByte_def isUpper_def isDigit_def Let_def)

lemma readDigits_plain:
  assumes ds: "\<forall>c \<in> set ds. isDigit c" and ne: "ds \<noteq> []" and fs: "\<forall>c \<in> set fs. isDigit c"
  shows "readDigits False (ds @ pointTail fs)
     \<lparr>digitsVal = 0, fracDigits = 0, sawdot = False, sawdigits = False, underscores = False, used = u\<rparr>
   = (\<lparr>digitsVal = foldl (\<lambda>a c. a * 10 + digitVal c) 0 (ds @ fs), fracDigits = length fs,
       sawdot = (fs \<noteq> []), sawdigits = True, underscores = False,
       used = u + length (ds @ pointTail fs)\<rparr>, [])"
proof (cases "fs = []")
  case True
  then show ?thesis using readDigits_run[OF ds, of "[]"] ne by (simp add: pointTail_def)
next
  case False
  have "readDigits False (fs @ [])
     \<lparr>digitsVal = foldl (\<lambda>a c. a * 10 + digitVal c) 0 ds, fracDigits = 0, sawdot = True,
      sawdigits = True, underscores = False, used = u + length ds + 1\<rparr>
    = readDigits False []
     \<lparr>digitsVal = foldl (\<lambda>a c. a * 10 + digitVal c) (foldl (\<lambda>a c. a * 10 + digitVal c) 0 ds) fs,
      fracDigits = (if True then 0 + length fs else 0), sawdot = True,
      sawdigits = (True \<or> fs \<noteq> []), underscores = False, used = u + length ds + 1 + length fs\<rparr>"
    by (rule readDigits_run[OF fs])
  then show ?thesis using False readDigits_run[OF ds, of "CHR ''.'' # fs"] ne
    by (simp add: pointTail_def)
qed

lemma digit_neq: "isDigit d \<Longrightarrow> \<not> isDigit c \<Longrightarrow> d \<noteq> c"
  by auto

lemma digit_not_upper: "isDigit d \<Longrightarrow> \<not> isUpper d"
  by (simp add: isDigit_def isUpper_def Let_def)

lemma digit_lowerByte: "isDigit d \<Longrightarrow> lowerByte d = d"
  by (simp add: lowerByte_def digit_not_upper)

lemma digit_other:
  assumes "isDigit d"
  shows "d \<noteq> CHR ''+''" "d \<noteq> CHR ''-''" "d \<noteq> CHR ''i''" "d \<noteq> CHR ''I''" "d \<noteq> CHR ''n''"
    "d \<noteq> CHR ''N''" "d \<noteq> CHR ''_''" "d \<noteq> CHR ''.''" "d \<noteq> CHR '',''"
  by (rule digit_neq[OF assms], simp add: isDigit_def)+

lemma infinityLen_digit: "isDigit d \<Longrightarrow> infinityLen (d # rest) = None"
  by (simp add: infinityLen_def digit_lowerByte digit_other)

lemma special_digit: "isDigit d \<Longrightarrow> special (d # rest) = None"
  by (simp add: special_def digit_other)

lemma special_minus_digit: "isDigit d \<Longrightarrow> special (CHR ''-'' # d # rest) = None"
  by (simp add: special_def infinityLen_digit)

lemma readExponent_end:
  "readExponent s neg False
     \<lparr>digitsVal = D, fracDigits = F, sawdot = dot, sawdigits = True, underscores = False, used = n\<rparr> []
   = Some (neg, of_nat D / of_nat (10 ^ F), n)"
  by (simp add: readExponent_def finishFloat_def mantissaValue_def)

lemma readFloat_pos:
  assumes ds: "\<forall>c \<in> set ds. isDigit c" and ne: "ds \<noteq> []" and fs: "\<forall>c \<in> set fs. isDigit c"
  shows "readFloat (ds @ pointTail fs) =
     Some (False, of_nat (foldl (\<lambda>a c. a * 10 + digitVal c) 0 (ds @ fs)) / of_nat (10 ^ length fs),
           length (ds @ pointTail fs))"
proof -
  obtain d ds' where d: "ds = d # ds'" using ne by (cases ds) auto
  have dd: "isDigit d" using ds d by simp
  define t where "t = ds' @ pointTail fs"
  have sc: "ds @ pointTail fs = d # t" by (simp add: t_def d)
  have s1: "\<forall>c \<in> set (d # t). isDigit c \<or> c = CHR ''.''"
    using ds fs by (auto simp: pointTail_def t_def d)
  have nosign: "d \<noteq> CHR ''+''" "d \<noteq> CHR ''-''" using digit_other[OF dd] by simp_all
  have hx: "isHexPrefix (d # t) = False" by (rule hex_false[OF s1])
  have run: "readDigits False (d # t)
     \<lparr>digitsVal = 0, fracDigits = 0, sawdot = False, sawdigits = False, underscores = False, used = 0\<rparr>
   = (\<lparr>digitsVal = foldl (\<lambda>a c. a * 10 + digitVal c) 0 (ds @ fs), fracDigits = length fs,
       sawdot = (fs \<noteq> []), sawdigits = True, underscores = False, used = length (d # t)\<rparr>, [])"
    using readDigits_plain[OF ds ne fs, of 0] by (simp add: sc)
  show ?thesis
    unfolding sc readFloat_def
    by (simp add: Let_def nosign hx run readExponent_end del: readDigits.simps foldl_append)
qed

lemma readFloat_neg:
  assumes ds: "\<forall>c \<in> set ds. isDigit c" and ne: "ds \<noteq> []" and fs: "\<forall>c \<in> set fs. isDigit c"
  shows "readFloat (CHR ''-'' # ds @ pointTail fs) =
     Some (True, of_nat (foldl (\<lambda>a c. a * 10 + digitVal c) 0 (ds @ fs)) / of_nat (10 ^ length fs),
           length (CHR ''-'' # ds @ pointTail fs))"
proof -
  define t where "t = ds @ pointTail fs"
  have s1: "\<forall>c \<in> set t. isDigit c \<or> c = CHR ''.''"
    using ds fs by (auto simp: pointTail_def t_def)
  have hx: "isHexPrefix t = False" by (rule hex_false[OF s1])
  have run: "readDigits False t
     \<lparr>digitsVal = 0, fracDigits = 0, sawdot = False, sawdigits = False, underscores = False, used = Suc 0\<rparr>
   = (\<lparr>digitsVal = foldl (\<lambda>a c. a * 10 + digitVal c) 0 (ds @ fs), fracDigits = length fs,
       sawdot = (fs \<noteq> []), sawdigits = True, underscores = False, used = Suc (length t)\<rparr>, [])"
    using readDigits_plain[OF ds ne fs, of "Suc 0"] by (simp add: t_def)
  have "readFloat (CHR ''-'' # t) =
     Some (True, of_nat (foldl (\<lambda>a c. a * 10 + digitVal c) 0 (ds @ fs)) / of_nat (10 ^ length fs),
           length (CHR ''-'' # t))"
    unfolding readFloat_def
    by (simp add: Let_def hx run readExponent_end del: readDigits.simps foldl_append)
  then show ?thesis by (simp only: t_def)
qed

lemma ParseFloat_plain:
  assumes ds: "\<forall>c \<in> set ds. isDigit c" and ne: "ds \<noteq> []" and fs: "\<forall>c \<in> set fs. isDigit c"
  shows "ParseFloat ((if s then ''-'' else []) @ ds @ pointTail fs) =
     (case round64 (of_nat (foldl (\<lambda>a c. a * 10 + digitVal c) 0 (ds @ fs)) / of_nat (10 ^ length fs)) of
        None \<Rightarrow> None | Some r \<Rightarrow> Some (Fin64 s r))"
proof -
  obtain d ds' where d: "ds = d # ds'" using ne by (cases ds) auto
  have dd: "isDigit d" using ds d by simp
  define v where "v = (of_nat (foldl (\<lambda>a c. a * 10 + digitVal c) 0 (ds @ fs)) :: rat) / of_nat (10 ^ length fs)"
  show ?thesis
  proof (cases s)
    case True
    have sp: "special (CHR ''-'' # ds @ pointTail fs) = None"
      unfolding d using special_minus_digit[OF dd] by simp
    have rf: "readFloat (CHR ''-'' # ds @ pointTail fs) = Some (True, v, length (CHR ''-'' # ds @ pointTail fs))"
      unfolding v_def by (rule readFloat_neg[OF ds ne fs])
    have "ParseFloat (CHR ''-'' # ds @ pointTail fs) =
        (case round64 v of None \<Rightarrow> None | Some r \<Rightarrow> Some (Fin64 True r))"
      unfolding ParseFloat_def sp rf by simp
    then show ?thesis using True by (simp add: v_def split: option.split)
  next
    case False
    have sp: "special (ds @ pointTail fs) = None"
      unfolding d using special_digit[OF dd] by simp
    have rf: "readFloat (ds @ pointTail fs) = Some (False, v, length (ds @ pointTail fs))"
      unfolding v_def by (rule readFloat_pos[OF ds ne fs])
    have "ParseFloat (ds @ pointTail fs) =
        (case round64 v of None \<Rightarrow> None | Some r \<Rightarrow> Some (Fin64 False r))"
      unfolding ParseFloat_def sp rf by simp
    then show ?thesis using False by (simp add: v_def split: option.split)
  qed
qed

lemma fractionText_digits: "c \<in> set (fractionText n) \<Longrightarrow> isDigit c"
  by (auto simp: fractionText_def digitChar_isDigit split: if_splits)

lemma shortest2_plain:
  "shortest2 s n = (if s then ''-'' else []) @ decimal (n div 100) @ pointTail (fractionText n)"
  by (simp add: shortest2_def pointTail_def)

lemma centi_lin:
  fixes A B C M n :: nat
  shows "M = B * 10 + C \<Longrightarrow> A * 100 + M = n \<Longrightarrow> n = (A * 10 + B) * 10 + C"
  by arith

lemma centi_split:
  fixes n :: nat
  shows "n mod 100 = n div 10 mod 10 * 10 + n mod 10"
    and "n = (n div 100 * 10 + n div 10 mod 10) * 10 + n mod 10"
proof -
  have m: "n mod (10 * 10) = 10 * (n div 10 mod 10) + n mod 10" by (rule mod_mult2_eq)
  then show a: "n mod 100 = n div 10 mod 10 * 10 + n mod 10" by simp
  have "n div 100 * 100 + n mod 100 = n" by (rule div_mult_mod_eq)
  with a show "n = (n div 100 * 10 + n div 10 mod 10) * 10 + n mod 10" by (rule centi_lin)
qed

lemma foldl_fraction:
  "foldl (\<lambda>a c. a * 10 + digitVal c) (n div 100) (fractionText n) * 100
     = n * 10 ^ length (fractionText n)"
proof -
  define a where "a = n div 100"
  define b where "b = n div 10 mod 10"
  define c where "c = n mod 10"
  have d1: "digitVal (digitChar b) = b" unfolding b_def by (rule digitVal_digitChar) simp
  have d2: "digitVal (digitChar c) = c" unfolding c_def by (rule digitVal_digitChar) simp
  have m: "n mod 100 = b * 10 + c" and n: "n = (a * 10 + b) * 10 + c"
    unfolding a_def b_def c_def by (rule centi_split)+
  define F where "F = fractionText n"
  have ft: "F = (if b * 10 + c = 0 then [] else if c = 0 then [digitChar b] else [digitChar b, digitChar c])"
    unfolding F_def fractionText_def m[symmetric] by (simp add: b_def c_def)
  consider (none) "b = 0" "c = 0" | (one) "b \<noteq> 0" "c = 0" | (two) "c \<noteq> 0" by blast
  then have "foldl (\<lambda>a c. a * 10 + digitVal c) a F * 100 = n * 10 ^ length F"
  proof cases
    case none
    then have "F = []" by (simp add: ft)
    moreover have "n = a * 100" using n none by simp
    ultimately show ?thesis by simp
  next
    case one
    then have "F = [digitChar b]" by (simp add: ft)
    moreover have "n = (a * 10 + b) * 10" using n one by simp
    ultimately show ?thesis using d1 by simp
  next
    case two
    then have "F = [digitChar b, digitChar c]" by (simp add: ft)
    then show ?thesis using d1 d2 n by simp
  qed
  then show ?thesis unfolding F_def a_def .
qed

lemma shortest2_value:
  "(of_nat (foldl (\<lambda>a c. a * 10 + digitVal c) 0 (decimal (n div 100) @ fractionText n)) :: rat)
     / of_nat (10 ^ length (fractionText n)) = of_nat n / 100"
proof -
  define k where "k = foldl (\<lambda>a c. a * 10 + digitVal c) (n div 100) (fractionText n)"
  have "foldl (\<lambda>a c. a * 10 + digitVal c) 0 (decimal (n div 100) @ fractionText n) = k"
    by (simp add: k_def foldl_decimal)
  moreover have "k * 100 = n * 10 ^ length (fractionText n)"
    unfolding k_def by (rule foldl_fraction)
  then have "(of_nat (k * 100) :: rat) = of_nat (n * 10 ^ length (fractionText n))" by simp
  then have "(of_nat k :: rat) * 100 = of_nat n * 10 ^ length (fractionText n)" by simp
  ultimately show ?thesis by (simp add: field_simps)
qed

lemma ParseFloat_shortest2:
  "ParseFloat (shortest2 s n) =
     (case round64 (of_nat n / 100) of None \<Rightarrow> None | Some r \<Rightarrow> Some (Fin64 s r))"
proof -
  have ds: "\<forall>c \<in> set (decimal (n div 100)). isDigit c" using decimal_digits by blast
  have fs: "\<forall>c \<in> set (fractionText n). isDigit c" using fractionText_digits by blast
  show ?thesis
    unfolding shortest2_plain
    using ParseFloat_plain[OF ds decimal_nonempty fs, of s] by (simp only: shortest2_value)
qed

lemma shortest2_chars: "c \<in> set (shortest2 s n) \<Longrightarrow> isDigit c \<or> c = CHR ''-'' \<or> c = CHR ''.''"
  using decimal_digits[of c "n div 100"] fractionText_digits[of c n]
  by (auto simp: shortest2_def split: if_splits)

lemma shortest2_ends:
  "shortest2 s n \<noteq> []" "plainChar (hd (shortest2 s n))" "plainChar (last (shortest2 s n))"
proof -
  have ne: "decimal (n div 100) \<noteq> []" by (rule decimal_nonempty)
  have hd_d: "isDigit (hd (decimal (n div 100)))"
    using decimal_digits[of "hd (decimal (n div 100))" "n div 100"] ne by simp
  show "shortest2 s n \<noteq> []" using ne by (simp add: shortest2_def)
  show "plainChar (hd (shortest2 s n))"
    using ne hd_d by (simp add: shortest2_def plainChar_def hd_append)
  show "plainChar (last (shortest2 s n))"
  proof (cases "fractionText n = []")
    case True
    then show ?thesis using ne last_decimal_digit[of "n div 100"]
      by (simp add: shortest2_def plainChar_def)
  next
    case False
    then have "last (fractionText n) \<in> set (fractionText n)" by simp
    then have "isDigit (last (fractionText n))" by (rule fractionText_digits)
    with False show ?thesis by (simp add: shortest2_def plainChar_def)
  qed
qed

lemma lowerByte_minus: "lowerByte (CHR ''-'') = CHR ''-''"
  by code_simp

lemma plain_lowerByte_not_n: "plainChar c \<Longrightarrow> lowerByte c \<noteq> CHR ''n''"
  using digit_lowerByte[of c] digit_other(5)[of c] lowerByte_minus
  by (auto simp: plainChar_def)

lemma qv_shortest2:
  "quarterValueToFloat64 (shortest2 s n) =
     (case round64 (of_nat n / 100) of None \<Rightarrow> NaN | Some r \<Rightarrow> Fin64 s r)"
proof -
  define str where "str = shortest2 s n"
  have ne: "str \<noteq> []" and h: "plainChar (hd str)" and l: "plainChar (last str)"
    unfolding str_def by (rule shortest2_ends)+
  have trim: "TrimSpace str = str" by (rule TrimSpace_plain[OF ne h l])
  have nf: "\<not> EqualFoldLower str ''not declared''"
  proof
    assume "EqualFoldLower str ''not declared''"
    then have "map lowerByte str = ''not declared''" by (simp add: EqualFoldLower_def)
    then have "hd (map lowerByte str) = CHR ''n''" by simp
    then have "lowerByte (hd str) = CHR ''n''" using ne by (simp add: hd_map)
    with plain_lowerByte_not_n[OF h] show False by simp
  qed
  have nocomma: "filter (\<lambda>c. c \<noteq> CHR '','') str = str"
  proof (rule filter_True)
    show "\<forall>c \<in> set str. c \<noteq> CHR '',''"
    proof
      fix c assume "c \<in> set str"
      then have "isDigit c \<or> c = CHR ''-'' \<or> c = CHR ''.''" unfolding str_def by (rule shortest2_chars)
      then show "c \<noteq> CHR '',''" using digit_other(9)[of c] by auto
    qed
  qed
  have "quarterValueToFloat64 str = (case ParseFloat str of Some f \<Rightarrow> f | None \<Rightarrow> NaN)"
    by (simp add: quarterValueToFloat64_def trim ne nf nocomma Let_def)
  then show ?thesis
    unfolding str_def ParseFloat_shortest2 by (simp split: option.split)
qed

lemma centi_close:
  assumes "0 \<le> q"
  shows "\<bar>of_nat (nat (rhe (q * 100))) / 100 - q\<bar> \<le> 1 / 200"
proof -
  have nn: "0 \<le> rhe (q * 100)" using assms by (intro rhe_nonneg) simp
  then have e: "(of_nat (nat (rhe (q * 100))) :: rat) = of_int (rhe (q * 100))" by simp
  have "\<bar>of_int (rhe (q * 100)) - q * 100\<bar> \<le> 1 / 2" by (rule rhe_half)
  then show ?thesis unfolding e by (simp add: abs_le_iff field_simps)
qed


lemma formatFloat_1500: "formatFloat (Fin64 False 1500) = ''1500''"
  by (simp add: formatFloat_def rhe_def decimal.simps digitChar_eval TrimRight_def)

lemma formatFloat_1500_5: "formatFloat (Fin64 False (3001 / 2)) = ''1500.5''"
  by (simp add: formatFloat_def rhe_def decimal.simps digitChar_eval TrimRight_def)

text \<open>
  Claim C9: \<^verbatim>\<open>formatFloat\<close> writes a finite number with up to two decimals (the
  hundredths of its magnitude, rounded with a tie to the even digit, without trailing
  zeros and without a trailing point), so 1500 gives \<^verbatim>\<open>1500\<close> and 1500.5 gives
  \<^verbatim>\<open>1500.5\<close>; and for every finite binary64 number, \<^verbatim>\<open>quarterValueToFloat64\<close> reads the
  text back as a finite number of the same sign within 0.01 of it.
\<close>

theorem C9_format_roundtrip:
  "formatFloat (Fin64 s q) = shortest2 s (nat (rhe (q * 100))) \<and>
   formatFloat (Fin64 False 1500) = ''1500'' \<and>
   formatFloat (Fin64 False (3001 / 2)) = ''1500.5'' \<and>
   (valid64 (Fin64 s q) \<longrightarrow>
      (\<exists>r. quarterValueToFloat64 (formatFloat (Fin64 s q)) = Fin64 s r \<and>
           \<bar>signedVal s r - signedVal s q\<bar> \<le> 1 / 100))"
proof (intro conjI impI)
  show "formatFloat (Fin64 s q) = shortest2 s (nat (rhe (q * 100)))" by (rule formatFloat_Fin)
  show "formatFloat (Fin64 False 1500) = ''1500''" by (rule formatFloat_1500)
  show "formatFloat (Fin64 False (3001 / 2)) = ''1500.5''" by (rule formatFloat_1500_5)
next
  assume v: "valid64 (Fin64 s q)"
  then have q: "0 \<le> q" and rq: "round64 q = Some q" by (simp_all add: valid64_def)
  define n where "n = nat (rhe (q * 100))"
  have close: "\<bar>of_nat n / 100 - q\<bar> \<le> 1 / 200" unfolding n_def by (rule centi_close[OF q])
  have vp: "(0::rat) \<le> of_nat n / 100" by simp
  from round64_near[OF rq q vp close] obtain r where
    r: "round64 (of_nat n / 100) = Some r" and rn: "\<bar>r - of_nat n / 100\<bar> \<le> \<bar>q - of_nat n / 100\<bar>"
    by blast
  have fmt: "formatFloat (Fin64 s q) = shortest2 s n" unfolding n_def by (rule formatFloat_Fin)
  have rt: "quarterValueToFloat64 (formatFloat (Fin64 s q)) = Fin64 s r"
    by (simp add: fmt qv_shortest2 r)
  have "\<bar>r - q\<bar> \<le> 1 / 100" using rn close by linarith
  then have "\<bar>signedVal s r - signedVal s q\<bar> \<le> 1 / 100"
    by (cases s) (simp_all add: signedVal_def abs_minus_commute)
  with rt show "\<exists>r. quarterValueToFloat64 (formatFloat (Fin64 s q)) = Fin64 s r \<and>
           \<bar>signedVal s r - signedVal s q\<bar> \<le> 1 / 100" by blast
qed

lemma valid_1500_5: "valid64 (Fin64 False (3001 / 2))"
  by code_simp

theorem C9_format_roundtrip_witness:
  "valid64 (Fin64 False (3001 / 2)) \<and>
   (\<exists>r. quarterValueToFloat64 (formatFloat (Fin64 False (3001 / 2))) = Fin64 False r \<and>
        \<bar>signedVal False r - signedVal False (3001 / 2)\<bar> \<le> 1 / 100)"
  using C9_format_roundtrip[of False "3001 / 2"] valid_1500_5 by blast

section \<open>Properties of the batch\<close>

text \<open>
  Claim C7 at an input where the code does not do what the claim says. The short name
  of the second item ends with a line feed, so the address of its search is refused by
  \<^verbatim>\<open>http.NewRequest\<close>; \<^verbatim>\<open>FetchTrendSearch\<close> drops that error and panics on the nil request.
  The goroutine of the item does not send a failure on \<^verbatim>\<open>resultsCh\<close>: the panic ends the
  program and the batch returns nothing, although the first item alone gives one result.
\<close>

theorem C7_panic_aborts_batch:
  "worker (acmeWorld ''{}'' (Inr [])) lineFeedItem = Panics \<and>
   runBatch (acmeWorld ''{}'' (Inr [])) [acmeItem, lineFeedItem] = Panics \<and>
   map_outcome length (runBatch (acmeWorld ''{}'' (Inr [])) [acmeItem]) = Returns 1"
  by code_simp

end
